theory Spec2Isabelle
  imports Main "HOL-Library.AList"
begin

section \<open>Errors\<close>

text \<open>
  The exceptions that the module sort_folder.py and the library calls it makes can raise.
  A function that can raise returns \<open>error + 'a\<close>, with \<open>Inl\<close> for the exception.
\<close>

datatype error =
    IndexError
  | KeyError
  | NameError
  | ValueError
  | TypeError
  | AttributeError
  | FileNotFoundError
  | NotADirectoryError
  | IsADirectoryError
  | PermissionError
  | SameFileError
  | ImageError

section \<open>Paths (posixpath)\<close>

definition sep :: char where
  "sep = CHR ''/''"

text \<open>\<^verbatim>\<open>os.path.basename(p)\<close>: what follows the last separator.\<close>

definition basename :: "string \<Rightarrow> string" where
  "basename p = rev (takeWhile (\<lambda>c. c \<noteq> sep) (rev p))"

text \<open>
  \<^verbatim>\<open>os.path.split(p)\<close>: head and tail around the last separator; the trailing
  separators of the head are stripped unless the head consists of separators only.
\<close>

definition split_path :: "string \<Rightarrow> string \<times> string" where
  "split_path p =
     (let head = rev (dropWhile (\<lambda>c. c \<noteq> sep) (rev p));
          tail = rev (takeWhile (\<lambda>c. c \<noteq> sep) (rev p))
      in (if head \<noteq> [] \<and> (\<exists>c \<in> set head. c \<noteq> sep)
          then rev (dropWhile (\<lambda>c. c = sep) (rev head))
          else head,
          tail))"

text \<open>
  \<^verbatim>\<open>os.path.join(a, *p)\<close>: a component that starts with the separator replaces what
  was joined so far; otherwise it is appended, after a separator unless the path is
  empty or already ends with one.
\<close>

definition join_step :: "string \<Rightarrow> string \<Rightarrow> string" where
  "join_step path b =
     (if b \<noteq> [] \<and> hd b = sep then b
      else if path = [] \<or> last path = sep then path @ b
      else path @ [sep] @ b)"

definition join :: "string \<Rightarrow> string list \<Rightarrow> string" where
  "join a p = foldl join_step a p"

section \<open>The file system\<close>

text \<open>
  Regular files with their content, directories, and the paths that the process may not
  read or may not write (for a file that does not exist: may not create). A path is the
  string the program passes: two paths name the same file when they are equal (no links,
  no normalisation of dots). The empty directory name is the working directory, which
  exists. Every directory can be searched.
\<close>

record filesys =
  files :: "string \<rightharpoonup> string"
  dirs :: "string set"
  noread :: "string set"
  nowrite :: "string set"

text \<open>\<^verbatim>\<open>os.path.exists(p)\<close>\<close>

definition exists_path :: "filesys \<Rightarrow> string \<Rightarrow> bool" where
  "exists_path fs p \<longleftrightarrow> files fs p \<noteq> None \<or> p \<in> dirs fs"

definition dir_exists :: "filesys \<Rightarrow> string \<Rightarrow> bool" where
  "dir_exists fs d \<longleftrightarrow> d = [] \<or> d \<in> dirs fs"

text \<open>
  The names that a path goes through: what stands before each separator. When one of
  them is a regular file, the path cannot be resolved, and opening it raises
  NotADirectoryError rather than FileNotFoundError.
\<close>

fun dirnames :: "string \<Rightarrow> string \<Rightarrow> string list" where
  "dirnames pre [] = []"
| "dirnames pre (c # cs) =
     (if c = sep \<and> pre \<noteq> [] then pre # dirnames (pre @ [c]) cs
      else dirnames (pre @ [c]) cs)"

definition file_above :: "filesys \<Rightarrow> string \<Rightarrow> bool" where
  "file_above fs p \<longleftrightarrow> (\<exists>a \<in> set (dirnames [] p). files fs a \<noteq> None)"

text \<open>\<^verbatim>\<open>open(p, 'r')\<close> followed by reading the whole file.\<close>

definition open_r :: "filesys \<Rightarrow> string \<Rightarrow> error + string" where
  "open_r fs p =
     (if p \<in> dirs fs then Inl IsADirectoryError
      else case files fs p of
             None \<Rightarrow> if file_above fs p then Inl NotADirectoryError else Inl FileNotFoundError
           | Some c \<Rightarrow> if p \<in> noread fs then Inl PermissionError else Inr c)"

text \<open>
  \<^verbatim>\<open>open(p, 'w')\<close>: the check that the file can be created or truncated. A file that
  exists is overwritten; a new file needs its directory.
\<close>

definition open_w :: "filesys \<Rightarrow> string \<Rightarrow> error option" where
  "open_w fs p =
     (if p \<in> dirs fs then Some IsADirectoryError
      else if files fs p \<noteq> None then
        (if p \<in> nowrite fs then Some PermissionError else None)
      else if \<not> dir_exists fs (fst (split_path p)) then
        (if file_above fs p then Some NotADirectoryError else Some FileNotFoundError)
      else if fst (split_path p) \<in> nowrite fs \<or> p \<in> nowrite fs then Some PermissionError
      else None)"

definition write_file :: "filesys \<Rightarrow> string \<Rightarrow> string \<Rightarrow> error + filesys" where
  "write_file fs p c =
     (case open_w fs p of
        Some e \<Rightarrow> Inl e
      | None \<Rightarrow> Inr (fs\<lparr>files := (files fs)(p \<mapsto> c)\<rparr>))"

text \<open>
  \<^verbatim>\<open>shutil.copyfile(src, dst)\<close>: refuses to copy a file onto itself, then opens the
  source for reading and the destination for writing. A destination that exists is
  overwritten.
\<close>

definition copyfile :: "filesys \<Rightarrow> string \<Rightarrow> string \<Rightarrow> error + filesys" where
  "copyfile fs src dst =
     (if src = dst \<and> exists_path fs src then Inl SameFileError
      else case open_r fs src of
             Inl e \<Rightarrow> Inl e
           | Inr c \<Rightarrow> write_file fs dst c)"

section \<open>Python values\<close>

text \<open>\<^verbatim>\<open>xs[i]\<close> for a Python int: a negative index counts from the end.\<close>

definition py_index :: "'a list \<Rightarrow> int \<Rightarrow> error + 'a" where
  "py_index xs i =
     (if 0 \<le> i \<and> i < int (length xs) then Inr (xs ! nat i)
      else if i < 0 \<and> - i \<le> int (length xs) then Inr (xs ! nat (int (length xs) + i))
      else Inl IndexError)"

text \<open>\<^verbatim>\<open>str(n)\<close> for a natural number.\<close>

definition digit_char :: "nat \<Rightarrow> char" where
  "digit_char d = char_of (48 + d)"

fun str_nat :: "nat \<Rightarrow> string" where
  "str_nat n = (if n < 10 then [digit_char n] else str_nat (n div 10) @ [digit_char (n mod 10)])"

declare str_nat.simps [simp del]

text \<open>
  \<^verbatim>\<open>int(event.char)\<close>: the attribute is the empty string for a key without a
  character, and one character otherwise; only a decimal digit converts.
\<close>

definition py_int :: "char option \<Rightarrow> error + int" where
  "py_int s =
     (case s of
        None \<Rightarrow> Inl ValueError
      | Some c \<Rightarrow>
          if 48 \<le> (of_char c :: nat) \<and> (of_char c :: nat) \<le> 57
          then Inr (int (of_char c) - 48)
          else Inl ValueError)"

text \<open>
  The lines that iterating over a file opened in text mode yields: a line ends at
  a newline, a carriage return, or a carriage return followed by a newline (universal
  newlines), each read as a newline; a last line without an ending counts.
\<close>

fun py_lines_from :: "string \<Rightarrow> string \<Rightarrow> string list" where
  "py_lines_from cur [] = (if cur = [] then [] else [cur])"
| "py_lines_from cur [c] =
     (if c = CHR 0x0A \<or> c = CHR 0x0D then [cur @ [CHR 0x0A]] else [cur @ [c]])"
| "py_lines_from cur (c # d # cs) =
     (if c = CHR 0x0A then (cur @ [CHR 0x0A]) # py_lines_from [] (d # cs)
      else if c = CHR 0x0D then
        (cur @ [CHR 0x0A]) # (if d = CHR 0x0A then py_lines_from [] cs else py_lines_from [] (d # cs))
      else py_lines_from (cur @ [c]) (d # cs))"

definition py_lines :: "string \<Rightarrow> string list" where
  "py_lines c = py_lines_from [] c"

section \<open>The session\<close>

text \<open>
  What the module takes from outside: the module-level name \<^verbatim>\<open>labels\<close>, which
  only the script's main block binds (to the list it also passes to the constructor), and
  whether the imaging library can open and prepare a file's content for display.
\<close>

record env =
  glob_labels :: "string list option"
  displayable :: "string \<Rightarrow> bool"

text \<open>
  A Python dict from label to list of paths: keys in insertion order, each key once.
\<close>

type_synonym dict = "(string \<times> string list) list"

text \<open>
  The fields of \<^verbatim>\<open>ImageGui\<close>, the widgets reduced to what they show (\<open>image_path\<close>:
  the image in the panel; \<open>progress\<close>: the two numbers of the progress label;
  \<open>bindings\<close>: the key sequences bound to \<^verbatim>\<open>vote_key\<close>; \<open>quit\<close>: whether
  \<^verbatim>\<open>master.quit()\<close> was called), and the file system. The defaults
  \<^verbatim>\<open>out_dict=False\<close> and \<^verbatim>\<open>out_file=False\<close> are \<open>None\<close>.
\<close>

record world =
  index :: nat
  paths :: "string list"
  labels :: "string list"
  out_dict :: "dict option"
  out_file :: "string option"
  n_labels :: nat
  n_paths :: nat
  image_path :: "string option"
  progress :: "nat \<times> nat"
  bindings :: "string list"
  quit :: bool
  disk :: filesys

text \<open>
  A method returns the exception it raised, if any, with the state as the exception
  left it.
\<close>

type_synonym outcome = "error option \<times> world"

text \<open>\<^verbatim>\<open>_load_image\<close>: opening the file and preparing it for display.\<close>

definition load_image :: "env \<Rightarrow> filesys \<Rightarrow> string \<Rightarrow> error option" where
  "load_image env fs path =
     (case open_r fs path of
        Inl e \<Rightarrow> Some e
      | Inr c \<Rightarrow> if displayable env c then None else Some ImageError)"

definition set_image :: "env \<Rightarrow> string \<Rightarrow> world \<Rightarrow> outcome" where
  "set_image env path w =
     (case load_image env (disk w) path of
        Some e \<Rightarrow> (Some e, w)
      | None \<Rightarrow> (None, w\<lparr>image_path := Some path\<rparr>))"

text \<open>\<^verbatim>\<open>_copy_image\<close>\<close>

definition copy_image :: "filesys \<Rightarrow> string \<Rightarrow> string \<Rightarrow> error + filesys" where
  "copy_image fs input_path label =
     (let (root, file_name) = split_path input_path;
          output_path = join root [label, file_name]
      in copyfile fs input_path output_path)"

text \<open>\<^verbatim>\<open>_add_to_dict\<close>: \<^verbatim>\<open>output_dict[label].append(input_path)\<close>\<close>

definition add_to_dict :: "dict \<Rightarrow> string \<Rightarrow> string \<Rightarrow> error + dict" where
  "add_to_dict output_dict input_path label =
     (case map_of output_dict label of
        None \<Rightarrow> Inl KeyError
      | Some ps \<Rightarrow> Inr (AList.update label (ps @ [input_path]) output_dict))"

text \<open>
  \<^verbatim>\<open>save\<close>: one file per key of the dict, in the order of the keys. The loop stops at
  the first file that cannot be written; the files written before it stay.
\<close>

definition manifest_text :: "string list \<Rightarrow> string" where
  "manifest_text ls = concat (map (\<lambda>line. basename line @ [CHR 0x0A]) ls)"

fun save_loop :: "dict \<Rightarrow> string option \<Rightarrow> string list \<Rightarrow> filesys \<Rightarrow> error option \<times> filesys" where
  "save_loop d dir [] fs = (None, fs)"
| "save_loop d dir (kk # ks) fs =
     (case dir of
        None \<Rightarrow> (Some TypeError, fs)
      | Some ptf \<Rightarrow>
          (case map_of d kk of
             None \<Rightarrow> (Some KeyError, fs)
           | Some ls \<Rightarrow>
               (case write_file fs (join ptf [kk @ ''.txt'']) (manifest_text ls) of
                  Inl e \<Rightarrow> (Some e, fs)
                | Inr fs' \<Rightarrow> save_loop d dir ks fs')))"

definition save :: "world \<Rightarrow> outcome" where
  "save w =
     (case out_dict w of
        None \<Rightarrow> (Some AttributeError, w)
      | Some d \<Rightarrow>
          (let (r, fs') = save_loop d (out_file w) (map fst d) (disk w)
           in (r, w\<lparr>disk := fs'\<rparr>)))"

text \<open>Truth values of the two optional arguments, as \<^verbatim>\<open>if self.out_dict\<close> tests them.\<close>

definition truthy_dict :: "dict option \<Rightarrow> bool" where
  "truthy_dict od = (case od of None \<Rightarrow> False | Some d \<Rightarrow> d \<noteq> [])"

definition truthy_str :: "string option \<Rightarrow> bool" where
  "truthy_str os = (case os of None \<Rightarrow> False | Some s \<Rightarrow> s \<noteq> [])"

definition show_next_image :: "env \<Rightarrow> world \<Rightarrow> outcome" where
  "show_next_image env w =
     (let w1 = w\<lparr>index := index w + 1, progress := (index w + 1, n_paths w)\<rparr>
      in if index w1 < n_paths w1 then
           (if index w1 < length (paths w1)
            then set_image env (paths w1 ! index w1) w1
            else (Some IndexError, w1))
         else if truthy_str (out_file w1) then
           (case save w1 of
              (Some e, w2) \<Rightarrow> (Some e, w2)
            | (None, w2) \<Rightarrow> (None, w2\<lparr>quit := True\<rparr>))
         else (None, w1\<lparr>quit := True\<rparr>))"

definition vote :: "env \<Rightarrow> string \<Rightarrow> world \<Rightarrow> outcome" where
  "vote env label w =
     (if \<not> index w < length (paths w) then (Some IndexError, w)
      else
        let input_path = paths w ! index w
        in if truthy_dict (out_dict w) then
             (case add_to_dict (case out_dict w of Some d \<Rightarrow> d | None \<Rightarrow> []) input_path label of
                Inl e \<Rightarrow> (Some e, w)
              | Inr d' \<Rightarrow> show_next_image env (w\<lparr>out_dict := Some d'\<rparr>))
           else
             (case copy_image (disk w) input_path label of
                Inl e \<Rightarrow> (Some e, w)
              | Inr fs' \<Rightarrow> show_next_image env (w\<lparr>disk := fs'\<rparr>)))"

definition vote_key :: "env \<Rightarrow> char option \<Rightarrow> world \<Rightarrow> outcome" where
  "vote_key env event_char w =
     (case py_int event_char of
        Inl e \<Rightarrow> (Some e, w)
      | Inr pressed_key \<Rightarrow>
          (case py_index (labels w) (pressed_key - 1) of
             Inl e \<Rightarrow> (Some e, w)
           | Inr label \<Rightarrow> vote env label w))"

text \<open>
  A key press reaches \<^verbatim>\<open>vote_key\<close> through the bindings the constructor made:
  a bound sequence of characters matches when the latest key presses, the current
  one included, end with it. The handler runs once when some bound sequence matches,
  and nothing happens otherwise.
\<close>

definition tk_matches :: "string \<Rightarrow> string \<Rightarrow> bool" where
  "tk_matches pat presses \<longleftrightarrow>
     pat \<noteq> [] \<and> length pat \<le> length presses \<and>
     drop (length presses - length pat) presses = pat"

definition key_press :: "env \<Rightarrow> string \<Rightarrow> char \<Rightarrow> world \<Rightarrow> outcome" where
  "key_press env before c w =
     (if \<exists>pat \<in> set (bindings w). tk_matches pat (before @ [c])
      then vote_key env (Some c) w
      else (None, w))"

text \<open>
  \<^verbatim>\<open>_restart_from_file(labs, ptf)\<close>: the body reads the module-level name
  \<^verbatim>\<open>labels\<close>, not its parameter \<^verbatim>\<open>labs\<close>.
\<close>

fun count_files :: "filesys \<Rightarrow> string list \<Rightarrow> nat \<Rightarrow> error + nat" where
  "count_files fs [] tot = Inr tot"
| "count_files fs (lab # temp) tot =
     (case open_r fs lab of
        Inl e \<Rightarrow> Inl e
      | Inr c \<Rightarrow> count_files fs temp (tot + length (py_lines c)))"

definition restart_from_file :: "env \<Rightarrow> string list \<Rightarrow> string \<Rightarrow> filesys \<Rightarrow> error + nat" where
  "restart_from_file env labs ptf fs =
     (case glob_labels env of
        None \<Rightarrow> Inl NameError
      | Some glabels \<Rightarrow> count_files fs (map (\<lambda>item. join ptf [item @ ''.txt'']) glabels) 0)"

text \<open>
  The constructor. \<open>start_index\<close> is what it leaves in \<^verbatim>\<open>self.index\<close> before the
  first image is set (lines 48 and 65 to 68).
\<close>

definition start_index :: "env \<Rightarrow> string list \<Rightarrow> string option \<Rightarrow> filesys \<Rightarrow> error + nat" where
  "start_index env lbls ofile fs =
     (if truthy_str ofile then
        (case lbls of
           [] \<Rightarrow> Inl IndexError
         | l0 # _ \<Rightarrow>
             if exists_path fs (join (case ofile of Some d \<Rightarrow> d | None \<Rightarrow> []) [l0 @ ''.txt''])
             then restart_from_file env lbls (case ofile of Some d \<Rightarrow> d | None \<Rightarrow> []) fs
             else Inr 0)
      else Inr 0)"

definition init :: "env \<Rightarrow> string list \<Rightarrow> string list \<Rightarrow> dict option \<Rightarrow> string option \<Rightarrow> filesys \<Rightarrow> error + world" where
  "init env lbls pths odict ofile fs =
     (case start_index env lbls ofile fs of
        Inl e \<Rightarrow> Inl e
      | Inr i \<Rightarrow>
          if \<not> i < length pths then Inl IndexError
          else
            (case load_image env fs (pths ! i) of
               Some e \<Rightarrow> Inl e
             | None \<Rightarrow>
                 Inr \<lparr>index = i, paths = pths, labels = lbls, out_dict = odict,
                      out_file = ofile, n_labels = length lbls, n_paths = length pths,
                      image_path = Some (pths ! i), progress = (i, length pths),
                      bindings = map (\<lambda>key. str_nat (key + 1)) [0..<length lbls],
                      quit = False, disk = fs\<rparr>))"

text \<open>The dict the main block builds in text mode: every label with an empty list.\<close>

definition main_outdict :: "string list \<Rightarrow> dict" where
  "main_outdict lbls = foldl (\<lambda>outdict label. AList.update label [] outdict) [] lbls"

section \<open>Runs of a session\<close>

text \<open>
  The session is complete when the test \<^verbatim>\<open>self.index < self.n_paths\<close> of
  \<^verbatim>\<open>show_next_image\<close> fails.
\<close>

definition is_complete :: "world \<Rightarrow> bool" where
  "is_complete w \<longleftrightarrow> \<not> index w < n_paths w"

text \<open>Decisions one after the other, as long as none raises.\<close>

fun votes :: "env \<Rightarrow> string list \<Rightarrow> world \<Rightarrow> outcome" where
  "votes env [] w = (None, w)"
| "votes env (label # ls) w =
     (case vote env label w of
        (Some e, w') \<Rightarrow> (Some e, w')
      | (None, w') \<Rightarrow> votes env ls w')"

text \<open>
  What the user and the toolkit can do to a session: press the button of a label, press
  a key (after the key presses \<open>before\<close>), press the save button, or have
  \<^verbatim>\<open>vote_key\<close> called with an event. An exception raised in a callback is reported by
  the toolkit and the event loop goes on with the state as the callback left it.
\<close>

datatype action =
    Button string
  | Key string char
  | SaveButton
  | Handler "char option"

definition step :: "env \<Rightarrow> action \<Rightarrow> world \<Rightarrow> outcome" where
  "step env a w =
     (case a of
        Button label \<Rightarrow> vote env label w
      | Key before c \<Rightarrow> key_press env before c w
      | SaveButton \<Rightarrow> save w
      | Handler event_char \<Rightarrow> vote_key env event_char w)"

fun run :: "env \<Rightarrow> action list \<Rightarrow> world \<Rightarrow> world" where
  "run env [] w = w"
| "run env (a # as) w = run env as (snd (step env a w))"

text \<open>What no method changes after the constructor, and the invariant of the session.\<close>

definition same_config :: "world \<Rightarrow> world \<Rightarrow> bool" where
  "same_config w w' \<longleftrightarrow>
     paths w' = paths w \<and> labels w' = labels w \<and> n_paths w' = n_paths w \<and>
     n_labels w' = n_labels w \<and> out_file w' = out_file w \<and> bindings w' = bindings w"

definition wf_session :: "world \<Rightarrow> bool" where
  "wf_session w \<longleftrightarrow> n_paths w = length (paths w) \<and> index w \<le> length (paths w)"

section \<open>Example sessions\<close>

text \<open>
  A folder \<^verbatim>\<open>/data\<close> with three images and the labels cat and dog, once in copy mode
  and once in text mode, as the constructor leaves them.
\<close>

definition ex_env :: env where
  "ex_env = \<lparr>glob_labels = Some [''cat'', ''dog''], displayable = (\<lambda>c. True)\<rparr>"

definition ex_disk :: filesys where
  "ex_disk =
     \<lparr>files = [''/data/a.jpg'' \<mapsto> ''A'', ''/data/b.jpg'' \<mapsto> ''B'', ''/data/c.jpg'' \<mapsto> ''C''],
      dirs = {''/data'', ''/data/cat'', ''/data/dog'', ''/data/old''},
      noread = {}, nowrite = {}\<rparr>"

definition ex_paths :: "string list" where
  "ex_paths = [''/data/a.jpg'', ''/data/b.jpg'', ''/data/c.jpg'']"

definition ex_copy :: world where
  "ex_copy =
     \<lparr>index = 0, paths = ex_paths, labels = [''cat'', ''dog''], out_dict = None,
      out_file = None, n_labels = 2, n_paths = 3, image_path = Some ''/data/a.jpg'',
      progress = (0, 3), bindings = [''1'', ''2''], quit = False, disk = ex_disk\<rparr>"

definition ex_txt :: world where
  "ex_txt =
     \<lparr>index = 0, paths = ex_paths, labels = [''cat'', ''dog''],
      out_dict = Some [(''cat'', []), (''dog'', [])],
      out_file = Some ''/data'', n_labels = 2, n_paths = 3, image_path = Some ''/data/a.jpg'',
      progress = (0, 3), bindings = [''1'', ''2''], quit = False, disk = ex_disk\<rparr>"

definition ex_txt_done :: world where
  "ex_txt_done =
     \<lparr>index = 3, paths = ex_paths, labels = [''cat'', ''dog''],
      out_dict = Some [(''cat'', [''/data/a.jpg'', ''/data/c.jpg'']), (''dog'', [''/data/b.jpg''])],
      out_file = Some ''/data'', n_labels = 2, n_paths = 3, image_path = Some ''/data/c.jpg'',
      progress = (3, 3), bindings = [''1'', ''2''], quit = True,
      disk = ex_disk\<lparr>files := (files ex_disk)
        (''/data/cat.txt'' \<mapsto> ''a.jpg\<newline>c.jpg\<newline>'', ''/data/dog.txt'' \<mapsto> ''b.jpg\<newline>'')\<rparr>\<rparr>"

text \<open>The same folder when \<^verbatim>\<open>/data/cat/a.jpg\<close> is there already.\<close>

definition ex_disk_taken :: filesys where
  "ex_disk_taken = ex_disk\<lparr>files := (files ex_disk)(''/data/cat/a.jpg'' \<mapsto> ''old'')\<rparr>"

definition ex_copy_taken :: world where
  "ex_copy_taken = ex_copy\<lparr>disk := ex_disk_taken\<rparr>"

text \<open>
  The folder after an earlier run in text mode: both manifests written, one of them,
  or only the second.
\<close>

definition ex_disk_resume :: filesys where
  "ex_disk_resume = ex_disk\<lparr>files := (files ex_disk)
     (''/data/cat.txt'' \<mapsto> ''a.jpg\<newline>'', ''/data/dog.txt'' \<mapsto> ''b.jpg\<newline>'')\<rparr>"

definition ex_disk_cat_only :: filesys where
  "ex_disk_cat_only = ex_disk\<lparr>files := (files ex_disk)(''/data/cat.txt'' \<mapsto> ''a.jpg\<newline>'')\<rparr>"

definition ex_disk_dog_only :: filesys where
  "ex_disk_dog_only = ex_disk\<lparr>files := (files ex_disk)
     (''/data/dog.txt'' \<mapsto> ''a.jpg\<newline>b.jpg\<newline>'')\<rparr>"

text \<open>The session in text mode after the decisions cat and dog, not saved yet.\<close>

definition ex_txt_two :: world where
  "ex_txt_two =
     \<lparr>index = 2, paths = ex_paths, labels = [''cat'', ''dog''],
      out_dict = Some [(''cat'', [''/data/a.jpg'']), (''dog'', [''/data/b.jpg''])],
      out_file = Some ''/data'', n_labels = 2, n_paths = 3, image_path = Some ''/data/c.jpg'',
      progress = (2, 3), bindings = [''1'', ''2''], quit = False, disk = ex_disk\<rparr>"

text \<open>A session in text mode with eleven labels, as the constructor leaves it.\<close>

definition ex_eleven_labels :: "string list" where
  "ex_eleven_labels = map (\<lambda>c. [c]) ''abcdefghijk''"

definition ex_eleven :: world where
  "ex_eleven =
     \<lparr>index = 0, paths = ex_paths, labels = ex_eleven_labels,
      out_dict = Some (main_outdict ex_eleven_labels),
      out_file = Some ''/data'', n_labels = 11, n_paths = 3, image_path = Some ''/data/a.jpg'',
      progress = (0, 3), bindings = map (\<lambda>key. str_nat (key + 1)) [0..<11],
      quit = False, disk = ex_disk\<rparr>"

text \<open>The folder when \<^verbatim>\<open>/data/bird\<close> is a regular file.\<close>

definition ex_disk_bird_file :: filesys where
  "ex_disk_bird_file = ex_disk\<lparr>files := (files ex_disk)(''/data/bird'' \<mapsto> ''tweet'')\<rparr>"

section \<open>Properties\<close>

lemma same_config_refl: "same_config w w"
  by (simp add: same_config_def)

lemma same_config_trans: "same_config w w' \<Longrightarrow> same_config w' w'' \<Longrightarrow> same_config w w''"
  by (simp add: same_config_def)

lemma set_image_frame:
  "index (snd (set_image env p w)) = index w \<and> same_config w (snd (set_image env p w)) \<and>
   quit (snd (set_image env p w)) = quit w"
  by (simp add: set_image_def same_config_def split: option.splits)

lemma save_frame:
  "index (snd (save w)) = index w \<and> same_config w (snd (save w)) \<and>
   quit (snd (save w)) = quit w \<and> out_dict (snd (save w)) = out_dict w"
  by (simp add: save_def same_config_def split: option.splits prod.splits)

lemma show_next_image_frame:
  "index (snd (show_next_image env w)) = Suc (index w) \<and>
   same_config w (snd (show_next_image env w))"
proof -
  let ?w1 = "w\<lparr>index := index w + 1, progress := (index w + 1, n_paths w)\<rparr>"
  have c1: "same_config w ?w1" by (simp add: same_config_def)
  have s: "index (snd (save ?w1)) = Suc (index w) \<and> same_config ?w1 (snd (save ?w1))"
    using save_frame [of ?w1] by simp
  have i: "index (snd (set_image env p ?w1)) = Suc (index w) \<and>
           same_config ?w1 (snd (set_image env p ?w1))" for p
    using set_image_frame [of env p ?w1] by simp
  show ?thesis
    using c1 s i
    by (auto simp: show_next_image_def Let_def same_config_def split: prod.splits option.splits)
qed

lemma vote_frame:
  "same_config w (snd (vote env label w)) \<and>
   (index (snd (vote env label w)) = index w \<or>
    index w < length (paths w) \<and> index (snd (vote env label w)) = Suc (index w))"
proof -
  have a: "same_config w (snd (show_next_image env (w\<lparr>out_dict := x\<rparr>))) \<and>
           index (snd (show_next_image env (w\<lparr>out_dict := x\<rparr>))) = Suc (index w)" for x
    using show_next_image_frame [of env "w\<lparr>out_dict := x\<rparr>"] by (simp add: same_config_def)
  have b: "same_config w (snd (show_next_image env (w\<lparr>disk := x\<rparr>))) \<and>
           index (snd (show_next_image env (w\<lparr>disk := x\<rparr>))) = Suc (index w)" for x
    using show_next_image_frame [of env "w\<lparr>disk := x\<rparr>"] by (simp add: same_config_def)
  show ?thesis
    using a b by (auto simp: vote_def Let_def same_config_refl split: sum.splits)
qed

lemma vote_returns:
  assumes "fst (vote env label w) = None"
  shows "index w < length (paths w) \<and> index (snd (vote env label w)) = Suc (index w)"
proof -
  have a: "index (snd (show_next_image env (w\<lparr>out_dict := x\<rparr>))) = Suc (index w)" for x
    using show_next_image_frame [of env "w\<lparr>out_dict := x\<rparr>"] by simp
  have b: "index (snd (show_next_image env (w\<lparr>disk := x\<rparr>))) = Suc (index w)" for x
    using show_next_image_frame [of env "w\<lparr>disk := x\<rparr>"] by simp
  show ?thesis
    using assms a b by (auto simp: vote_def Let_def split: sum.splits if_splits)
qed

lemma vote_key_cases:
  "vote_key env ec w = (fst (vote_key env ec w), w) \<and> fst (vote_key env ec w) \<noteq> None \<or>
   (\<exists>label \<in> set (labels w). vote_key env ec w = vote env label w)"
  by (auto simp: vote_key_def py_index_def split: sum.splits if_splits)

lemma key_press_cases:
  "key_press env before c w = (None, w) \<or> key_press env before c w = vote_key env (Some c) w"
  by (simp add: key_press_def)

lemma vote_key_frame:
  "same_config w (snd (vote_key env ec w)) \<and>
   (index (snd (vote_key env ec w)) = index w \<or>
    index w < length (paths w) \<and> index (snd (vote_key env ec w)) = Suc (index w))"
proof -
  from vote_key_cases [of env ec w] show ?thesis
  proof
    assume "vote_key env ec w = (fst (vote_key env ec w), w) \<and> fst (vote_key env ec w) \<noteq> None"
    then have "snd (vote_key env ec w) = w" by (metis snd_conv)
    then show ?thesis by (simp add: same_config_refl)
  next
    assume "\<exists>label \<in> set (labels w). vote_key env ec w = vote env label w"
    then obtain label where "vote_key env ec w = vote env label w" by blast
    then show ?thesis using vote_frame [of w env label] by simp
  qed
qed

lemma key_press_frame:
  "same_config w (snd (key_press env before c w)) \<and>
   (index (snd (key_press env before c w)) = index w \<or>
    index w < length (paths w) \<and> index (snd (key_press env before c w)) = Suc (index w))"
  using vote_key_frame [of w env "Some c"]
  by (simp add: key_press_def same_config_refl)

lemma step_frame:
  "same_config w (snd (step env a w)) \<and>
   (index (snd (step env a w)) = index w \<or>
    index w < length (paths w) \<and> index (snd (step env a w)) = Suc (index w))"
proof (cases a)
  case (Button l)
  then show ?thesis using vote_frame [of w env l] by (simp add: step_def)
next
  case (Key before c)
  then show ?thesis using key_press_frame [of w env before c] by (simp add: step_def)
next
  case SaveButton
  then show ?thesis using save_frame [of w] by (simp add: step_def)
next
  case (Handler ec)
  then show ?thesis using vote_key_frame [of w env ec] by (simp add: step_def)
qed

lemma step_wf: "wf_session w \<Longrightarrow> wf_session (snd (step env a w))"
  using step_frame [of w env a] by (auto simp: wf_session_def same_config_def)

lemma run_wf: "wf_session w \<Longrightarrow> wf_session (run env as w)"
  by (induction as arbitrary: w) (simp_all add: step_wf)

lemma run_config: "same_config w (run env as w)"
proof (induction as arbitrary: w)
  case Nil
  show ?case by (simp add: same_config_refl)
next
  case (Cons a as)
  have "same_config w (snd (step env a w))" using step_frame [of w env a] by simp
  moreover have "same_config (snd (step env a w)) (run env as (snd (step env a w)))"
    by (rule Cons.IH)
  ultimately show ?case by (simp add: same_config_def)
qed

lemma run_index_mono: "index w \<le> index (run env as w)"
proof (induction as arbitrary: w)
  case Nil
  show ?case by simp
next
  case (Cons a as)
  have "index w \<le> index (snd (step env a w))" using step_frame [of w env a] by auto
  also have "\<dots> \<le> index (run env as (snd (step env a w)))" by (rule Cons.IH)
  finally show ?case by simp
qed

lemma init_props:
  assumes "init env lbls pths odict ofile fs = Inr w"
  shows "start_index env lbls ofile fs = Inr (index w) \<and> index w < length pths \<and>
         paths w = pths \<and> n_paths w = length pths \<and> labels w = lbls \<and>
         n_labels w = length lbls \<and> out_dict w = odict \<and> out_file w = ofile \<and>
         quit w = False \<and> disk w = fs \<and>
         bindings w = map (\<lambda>key. str_nat (key + 1)) [0..<length lbls]"
  using assms by (auto simp: init_def split: sum.splits if_splits option.splits)

lemma votes_index:
  "votes env ls w = (None, w') \<Longrightarrow> index w' = index w + length ls \<and> same_config w w'"
proof (induction ls arbitrary: w)
  case Nil
  then show ?case by (simp add: same_config_refl)
next
  case (Cons l ls)
  obtain r w1 where v: "vote env l w = (r, w1)" by (cases "vote env l w")
  with Cons.prems have r: "r = None" and rest: "votes env ls w1 = (None, w')"
    by (auto split: option.splits)
  from v r have "index w1 = Suc (index w)" using vote_returns [of env l w] by simp
  moreover have "same_config w w1" using vote_frame [of w env l] v by simp
  moreover from Cons.IH [OF rest] have "index w' = index w1 + length ls \<and> same_config w1 w'" .
  ultimately show ?case by (auto simp: same_config_def)
qed


lemma str_nat_digit: "n < 10 \<Longrightarrow> str_nat n = [digit_char n]"
  by (subst str_nat.simps) simp

lemma digit_char_1_2: "digit_char (Suc 0) = CHR ''1''" "digit_char (Suc (Suc 0)) = CHR ''2''"
  by code_simp+

lemmas ex_defs = ex_env_def ex_disk_def ex_paths_def ex_copy_def ex_txt_def ex_txt_done_def
  ex_disk_taken_def ex_copy_taken_def ex_disk_resume_def ex_disk_cat_only_def ex_disk_dog_only_def
  ex_txt_two_def ex_eleven_labels_def ex_eleven_def ex_disk_bird_file_def

lemmas path_defs = split_path_def join_def join_step_def sep_def basename_def

lemmas fs_defs = exists_path_def dir_exists_def file_above_def open_r_def open_w_def write_file_def
  copyfile_def

lemma init_ex_copy: "init ex_env [''cat'', ''dog''] ex_paths None None ex_disk = Inr ex_copy"
  by (simp add: init_def start_index_def truthy_str_def load_image_def open_r_def ex_defs str_nat_digit digit_char_1_2)

lemma init_ex_txt:
  "init ex_env [''cat'', ''dog''] ex_paths (Some (main_outdict [''cat'', ''dog''])) (Some ''/data'') ex_disk
   = Inr ex_txt"
  by (simp add: init_def start_index_def truthy_str_def load_image_def open_r_def ex_defs
      str_nat_digit digit_char_1_2 exists_path_def join_def join_step_def sep_def main_outdict_def)

lemma votes_ex_txt: "votes ex_env [''cat'', ''dog'', ''cat''] ex_txt = (None, ex_txt_done)"
  by (simp add: vote_def show_next_image_def set_image_def load_image_def save_def
      truthy_dict_def truthy_str_def add_to_dict_def manifest_text_def Let_def
      ex_defs path_defs fs_defs)


lemma start_index_fresh: "\<not> truthy_str ofile \<Longrightarrow> start_index env lbls ofile fs = Inr 0"
  by (simp add: start_index_def)

lemma init_wf: "init env lbls pths odict ofile fs = Inr w \<Longrightarrow> wf_session w"
  using init_props [of env lbls pths odict ofile fs w] by (simp add: wf_session_def)

lemma votes_wf: "wf_session w \<Longrightarrow> wf_session (snd (votes env ls w))"
proof (induction ls arbitrary: w)
  case Nil
  then show ?case by simp
next
  case (Cons l ls)
  have "wf_session (snd (vote env l w))"
    using Cons.prems vote_frame [of w env l] by (auto simp: wf_session_def same_config_def)
  then show ?case
    using Cons.IH [of "snd (vote env l w)"] by (auto split: prod.splits option.splits)
qed

lemma wf_complete: "wf_session w \<Longrightarrow> is_complete w \<longleftrightarrow> index w = length (paths w)"
  by (auto simp: wf_session_def is_complete_def)

text \<open>
  Claim C1. A session that the constructor built and on which N decisions in a row
  returned without raising has its index at the starting index plus N; the starting index
  is what the constructor computed, and it is 0 when no output folder was given. The
  session is complete exactly when the starting index plus N is the number of images.
\<close>

theorem index_counts_decisions:
  assumes "init env lbls pths odict ofile fs = Inr w0"
    and "votes env ds w0 = (None, w)"
  shows "start_index env lbls ofile fs = Inr (index w0) \<and>
         index w = index w0 + length ds \<and>
         (\<not> truthy_str ofile \<longrightarrow> index w = length ds) \<and>
         (is_complete w \<longleftrightarrow> index w0 + length ds = length pths)"
proof -
  from init_props [OF assms(1)]
  have si: "start_index env lbls ofile fs = Inr (index w0)" and p0: "paths w0 = pths" by simp_all
  from votes_index [OF assms(2)]
  have ix: "index w = index w0 + length ds" and sc: "same_config w0 w" by simp_all
  have "wf_session w" using votes_wf [OF init_wf [OF assms(1)], of env ds] assms(2) by simp
  then have c: "is_complete w \<longleftrightarrow> index w = length (paths w)" by (rule wf_complete)
  have pw: "paths w = pths" using sc p0 by (simp add: same_config_def)
  have fresh: "\<not> truthy_str ofile \<longrightarrow> index w0 = 0"
    using si start_index_fresh [of ofile env lbls fs] by auto
  show ?thesis using si ix c pw fresh by simp
qed

theorem index_counts_decisions_witness:
  "init ex_env [''cat'', ''dog''] ex_paths (Some (main_outdict [''cat'', ''dog''])) (Some ''/data'') ex_disk
     = Inr ex_txt \<and>
   votes ex_env [''cat'', ''dog'', ''cat''] ex_txt = (None, ex_txt_done) \<and>
   index ex_txt_done = index ex_txt + length [''cat'', ''dog'', ''cat''] \<and>
   (is_complete ex_txt_done \<longleftrightarrow> index ex_txt + length [''cat'', ''dog'', ''cat''] = length ex_paths)"
  using index_counts_decisions [OF init_ex_txt votes_ex_txt] init_ex_txt votes_ex_txt by simp

text \<open>
  Claim C10. The constructor raises IndexError at \<^verbatim>\<open>paths[self.index]\<close> whenever the
  index it has computed is not below the number of images; over an empty list of images
  it never returns a session, and raises IndexError when no output folder was given. A
  session that it returns has its index below the number of images.
\<close>

theorem init_needs_index_in_range:
  "(\<forall>i. start_index env lbls ofile fs = Inr i \<and> length pths \<le> i \<longrightarrow>
      init env lbls pths odict ofile fs = Inl IndexError) \<and>
   (pths = [] \<longrightarrow> (\<exists>e. init env lbls pths odict ofile fs = Inl e)) \<and>
   (pths = [] \<and> \<not> truthy_str ofile \<longrightarrow> init env lbls pths odict ofile fs = Inl IndexError) \<and>
   (\<forall>w. init env lbls pths odict ofile fs = Inr w \<longrightarrow>
      start_index env lbls ofile fs = Inr (index w) \<and> index w < length pths)"
proof -
  have a: "init env lbls pths odict ofile fs = Inl IndexError"
    if "start_index env lbls ofile fs = Inr i" "length pths \<le> i" for i
    using that by (simp add: init_def)
  have b: "\<exists>e. init env lbls pths odict ofile fs = Inl e" if "pths = []"
    using that by (cases "start_index env lbls ofile fs") (simp_all add: init_def)
  have c: "init env lbls pths odict ofile fs = Inl IndexError" if "pths = []" "\<not> truthy_str ofile"
    using that a [of 0] start_index_fresh [of ofile env lbls fs] by simp
  have d: "start_index env lbls ofile fs = Inr (index w) \<and> index w < length pths"
    if "init env lbls pths odict ofile fs = Inr w" for w
    using init_props [OF that] by simp
  show ?thesis using a b c d by blast
qed

theorem init_needs_index_in_range_witness:
  "\<not> truthy_str None \<and>
   init ex_env [''cat'', ''dog''] [] None None ex_disk = Inl IndexError \<and>
   start_index ex_env [''cat'', ''dog''] (Some ''/data'') ex_disk_resume = Inr 2 \<and>
   length [''/data/a.jpg'', ''/data/b.jpg''] \<le> 2 \<and>
   init ex_env [''cat'', ''dog''] [''/data/a.jpg'', ''/data/b.jpg'']
     (Some (main_outdict [''cat'', ''dog''])) (Some ''/data'') ex_disk_resume = Inl IndexError"
proof -
  have e: "init ex_env [''cat'', ''dog''] [] None None ex_disk = Inl IndexError"
    using init_needs_index_in_range [of ex_env "[''cat'', ''dog'']" None ex_disk "[]" None]
    by (simp add: truthy_str_def)
  have s: "start_index ex_env [''cat'', ''dog''] (Some ''/data'') ex_disk_resume = Inr 2"
    by (simp add: start_index_def restart_from_file_def truthy_str_def py_lines_def
        path_defs fs_defs ex_defs)
  have r: "init ex_env [''cat'', ''dog''] [''/data/a.jpg'', ''/data/b.jpg'']
     (Some (main_outdict [''cat'', ''dog''])) (Some ''/data'') ex_disk_resume = Inl IndexError"
    using init_needs_index_in_range [of ex_env "[''cat'', ''dog'']" "Some ''/data''" ex_disk_resume
        "[''/data/a.jpg'', ''/data/b.jpg'']" "Some (main_outdict [''cat'', ''dog''])"] s
    by simp
  from e s r show ?thesis by (simp add: truthy_str_def)
qed

lemma copy_bird: "copy_image ex_disk ''/data/a.jpg'' ''bird'' = Inl FileNotFoundError"
  by (simp add: copy_image_def path_defs fs_defs ex_defs)

lemma add_bird: "add_to_dict [(''cat'', []), (''dog'', [])] ''/data/a.jpg'' ''bird'' = Inl KeyError"
  by (simp add: add_to_dict_def)

text \<open>
  Claim C2. When the side effect of a decision raises (appending to the dict in text mode,
  copying the file in copy mode), \<^verbatim>\<open>vote\<close> raises the same exception and leaves the
  whole state, the index included, as it was.
\<close>

theorem vote_persist_error_atomic:
  assumes "index w < length (paths w)"
  shows "(truthy_dict (out_dict w) \<and> out_dict w = Some d \<and>
            add_to_dict d (paths w ! index w) label = Inl e
          \<longrightarrow> vote env label w = (Some e, w)) \<and>
         (\<not> truthy_dict (out_dict w) \<and>
            copy_image (disk w) (paths w ! index w) label = Inl e
          \<longrightarrow> vote env label w = (Some e, w))"
  using assms by (auto simp: vote_def Let_def)

theorem vote_persist_error_atomic_witness:
  "index ex_copy < length (paths ex_copy) \<and> \<not> truthy_dict (out_dict ex_copy) \<and>
   copy_image (disk ex_copy) (paths ex_copy ! index ex_copy) ''bird'' = Inl FileNotFoundError \<and>
   vote ex_env ''bird'' ex_copy = (Some FileNotFoundError, ex_copy) \<and>
   index ex_txt < length (paths ex_txt) \<and> truthy_dict (out_dict ex_txt) \<and>
   add_to_dict [(''cat'', []), (''dog'', [])] (paths ex_txt ! index ex_txt) ''bird'' = Inl KeyError \<and>
   vote ex_env ''bird'' ex_txt = (Some KeyError, ex_txt)"
proof -
  have i1: "index ex_copy < length (paths ex_copy)" by (simp add: ex_defs)
  have i2: "index ex_txt < length (paths ex_txt)" by (simp add: ex_defs)
  have p1: "paths ex_copy ! index ex_copy = ''/data/a.jpg''" by (simp add: ex_defs)
  have p2: "paths ex_txt ! index ex_txt = ''/data/a.jpg''" by (simp add: ex_defs)
  have t1: "\<not> truthy_dict (out_dict ex_copy)" by (simp add: truthy_dict_def ex_defs)
  have t2: "truthy_dict (out_dict ex_txt)" by (simp add: truthy_dict_def ex_defs)
  have o2: "out_dict ex_txt = Some [(''cat'', []), (''dog'', [])]" by (simp add: ex_defs)
  have d1: "disk ex_copy = ex_disk" by (simp add: ex_defs)
  from vote_persist_error_atomic [OF i1, where label = "''bird''" and e = FileNotFoundError and env = ex_env]
  have v1: "vote ex_env ''bird'' ex_copy = (Some FileNotFoundError, ex_copy)"
    using t1 p1 d1 copy_bird by simp
  from vote_persist_error_atomic [OF i2, where d = "[(''cat'', []), (''dog'', [])]"
      and label = "''bird''" and e = KeyError and env = ex_env]
  have v2: "vote ex_env ''bird'' ex_txt = (Some KeyError, ex_txt)"
    using t2 p2 o2 add_bird by simp
  show ?thesis using i1 i2 t1 t2 p1 p2 d1 copy_bird add_bird v1 v2 by simp
qed

lemma start_index_cases:
  assumes "start_index env lbls ofile fs = Inr i"
  shows "i = 0 \<or> (\<exists>dir. ofile = Some dir \<and> restart_from_file env lbls dir fs = Inr i)"
  using assms
  by (auto simp: start_index_def truthy_str_def split: if_splits list.splits option.splits)

lemma vote_advances_or_unchanged:
  "index (snd (vote env label w)) = Suc (index w) \<or> vote env label w = (fst (vote env label w), w)"
proof -
  have a: "index (snd (show_next_image env (w\<lparr>out_dict := x\<rparr>))) = Suc (index w)" for x
    using show_next_image_frame [of env "w\<lparr>out_dict := x\<rparr>"] by simp
  have b: "index (snd (show_next_image env (w\<lparr>disk := x\<rparr>))) = Suc (index w)" for x
    using show_next_image_frame [of env "w\<lparr>disk := x\<rparr>"] by simp
  show ?thesis using a b by (auto simp: vote_def Let_def split: sum.splits)
qed

lemma step_changes_index:
  assumes "index (snd (step env a w)) \<noteq> index w"
  shows "\<exists>label. step env a w = vote env label w"
proof (cases a)
  case (Button l)
  then show ?thesis by (auto simp: step_def)
next
  case (Key before c)
  with assms have k: "index (snd (key_press env before c w)) \<noteq> index w" by (simp add: step_def)
  then have "key_press env before c w = vote_key env (Some c) w"
    using key_press_cases [of env before c w] by auto
  moreover from this k have "\<exists>label \<in> set (labels w). vote_key env (Some c) w = vote env label w"
    using vote_key_cases [of env "Some c" w] by (metis snd_conv)
  ultimately show ?thesis using Key by (auto simp: step_def)
next
  case SaveButton
  with assms show ?thesis using save_frame [of w] by (simp add: step_def)
next
  case (Handler ec)
  with assms have k: "index (snd (vote_key env ec w)) \<noteq> index w" by (simp add: step_def)
  then have "\<exists>label \<in> set (labels w). vote_key env ec w = vote env label w"
    using vote_key_cases [of env ec w] by (metis snd_conv)
  then show ?thesis using Handler by (auto simp: step_def)
qed

lemma complete_terminal:
  assumes "wf_session w" and "is_complete w"
  shows "index (snd (step env a w)) = index w \<and> is_complete (snd (step env a w))"
proof -
  from assms have "\<not> index w < length (paths w)" by (simp add: wf_session_def is_complete_def)
  then have i: "index (snd (step env a w)) = index w" using step_frame [of w env a] by auto
  have "n_paths (snd (step env a w)) = n_paths w"
    using step_frame [of w env a] by (simp add: same_config_def)
  with i assms(2) show ?thesis by (simp add: is_complete_def)
qed

text \<open>
  Claim C7. In every state that a session reaches from the constructor, whatever the
  buttons and keys pressed and whether or not a callback raised, the index is at most the
  number of images. It starts at 0 or at the count that \<^verbatim>\<open>_restart_from_file\<close> returned;
  each action leaves it or adds one; only a call of \<^verbatim>\<open>vote\<close> changes it; a call of
  \<^verbatim>\<open>vote\<close> either adds one or leaves the whole state as it was, and adds one when it
  returns; and once the index is the number of images, every action leaves it there.
\<close>

theorem session_index_invariant:
  assumes "init env lbls pths odict ofile fs = Inr w0"
  shows "(index w0 = 0 \<or>
           (\<exists>dir. ofile = Some dir \<and> restart_from_file env lbls dir fs = Inr (index w0))) \<and>
         paths (run env as w0) = pths \<and>
         index w0 \<le> index (run env as w0) \<and>
         index (run env as w0) \<le> length pths \<and>
         (\<forall>a. index (snd (step env a (run env as w0))) = index (run env as w0) \<or>
              index (snd (step env a (run env as w0))) = Suc (index (run env as w0))) \<and>
         (\<forall>a. index (snd (step env a (run env as w0))) \<noteq> index (run env as w0) \<longrightarrow>
              (\<exists>label. step env a (run env as w0) = vote env label (run env as w0))) \<and>
         (\<forall>label. index (snd (vote env label (run env as w0))) = Suc (index (run env as w0)) \<or>
              vote env label (run env as w0) = (fst (vote env label (run env as w0)), run env as w0)) \<and>
         (\<forall>label. fst (vote env label (run env as w0)) = None \<longrightarrow>
              index (snd (vote env label (run env as w0))) = Suc (index (run env as w0))) \<and>
         (is_complete (run env as w0) \<longleftrightarrow> index (run env as w0) = length pths) \<and>
         (is_complete (run env as w0) \<longrightarrow>
            (\<forall>a. index (snd (step env a (run env as w0))) = index (run env as w0) \<and>
                 is_complete (snd (step env a (run env as w0)))))"
proof -
  let ?w = "run env as w0"
  from init_props [OF assms] have si: "start_index env lbls ofile fs = Inr (index w0)"
    and p0: "paths w0 = pths" by simp_all
  have c1: "index w0 = 0 \<or>
      (\<exists>dir. ofile = Some dir \<and> restart_from_file env lbls dir fs = Inr (index w0))"
    using start_index_cases [OF si] .
  have wf: "wf_session ?w" using run_wf [OF init_wf [OF assms]] .
  have c2: "paths ?w = pths" using run_config [of w0 env as] p0 by (simp add: same_config_def)
  have c3: "index w0 \<le> index ?w" by (rule run_index_mono)
  have c4: "index ?w \<le> length pths" using wf c2 by (simp add: wf_session_def)
  have c5: "index (snd (step env a ?w)) = index ?w \<or> index (snd (step env a ?w)) = Suc (index ?w)" for a
    using step_frame [of ?w env a] by auto
  have c6: "index (snd (step env a ?w)) \<noteq> index ?w \<longrightarrow> (\<exists>label. step env a ?w = vote env label ?w)" for a
    using step_changes_index [of env a ?w] by blast
  have c7: "index (snd (vote env label ?w)) = Suc (index ?w) \<or>
            vote env label ?w = (fst (vote env label ?w), ?w)" for label
    by (rule vote_advances_or_unchanged)
  have c8: "fst (vote env label ?w) = None \<longrightarrow> index (snd (vote env label ?w)) = Suc (index ?w)" for label
    using vote_returns [of env label ?w] by blast
  have c9: "is_complete ?w \<longleftrightarrow> index ?w = length pths" using wf_complete [OF wf] c2 by simp
  have c10: "is_complete ?w \<longrightarrow>
      (\<forall>a. index (snd (step env a ?w)) = index ?w \<and> is_complete (snd (step env a ?w)))"
    using complete_terminal [OF wf] by blast
  from c1 c2 c3 c4 c5 c6 c7 c8 c9 c10 show ?thesis by blast
qed

lemma run_ex_copy:
  "index (run ex_env [Button ''cat'', Key [] (CHR ''2''), SaveButton, Key [] (CHR ''7'')] ex_copy) = 2"
  by (simp add: step_def key_press_def tk_matches_def vote_key_def py_int_def py_index_def
      vote_def show_next_image_def set_image_def load_image_def save_def copy_image_def
      truthy_dict_def truthy_str_def Let_def ex_defs path_defs fs_defs)

theorem session_index_invariant_witness:
  "init ex_env [''cat'', ''dog''] ex_paths None None ex_disk = Inr ex_copy \<and>
   index ex_copy = 0 \<and>
   index (run ex_env [Button ''cat'', Key [] (CHR ''2''), SaveButton, Key [] (CHR ''7'')] ex_copy) = 2 \<and>
   index (run ex_env [Button ''cat'', Key [] (CHR ''2''), SaveButton, Key [] (CHR ''7'')] ex_copy)
     \<le> length ex_paths"
  using session_index_invariant [OF init_ex_copy,
      of "[Button ''cat'', Key [] (CHR ''2''), SaveButton, Key [] (CHR ''7'')]"] init_ex_copy
    run_ex_copy
  by (simp add: ex_copy_def)

lemma vote_copy_ok:
  assumes "index w < length (paths w)" and "\<not> truthy_dict (out_dict w)"
    and "copy_image (disk w) (paths w ! index w) label = Inr fs'"
  shows "vote env label w = show_next_image env (w\<lparr>disk := fs'\<rparr>)"
  using assms by (simp add: vote_def Let_def)

lemma show_next_image_displays:
  assumes "Suc (index w) < n_paths w" and "Suc (index w) < length (paths w)"
    and "load_image env (disk w) (paths w ! Suc (index w)) = None"
  shows "fst (show_next_image env w) = None \<and> disk (snd (show_next_image env w)) = disk w"
  using assms by (simp add: show_next_image_def set_image_def Let_def)

lemma show_next_image_quits:
  assumes "\<not> Suc (index w) < n_paths w" and "\<not> truthy_str (out_file w)"
  shows "fst (show_next_image env w) = None \<and> disk (snd (show_next_image env w)) = disk w \<and>
         quit (snd (show_next_image env w))"
  using assms by (simp add: show_next_image_def Let_def)

text \<open>
  Claim C3, as amended. In copy mode, a file that already exists at the destination
  \<^verbatim>\<open>join(root, label, file_name)\<close> does not make the decision fail: provided the image is
  a readable file, and the destination is not the image itself, not a directory and not
  write-protected, \<^verbatim>\<open>_copy_image\<close> overwrites the destination with the content of the
  image, and \<^verbatim>\<open>vote\<close> goes on to \<^verbatim>\<open>show_next_image\<close> and advances the index. The
  vote returns without raising when the next image can be displayed, and after the last
  image when no output folder is set.
\<close>

theorem copy_image_overwrites:
  assumes "open_r fs input_path = Inr c"
    and "output_path = join (fst (split_path input_path)) [label, snd (split_path input_path)]"
    and "files fs output_path \<noteq> None"
    and "output_path \<noteq> input_path"
    and "output_path \<notin> dirs fs"
    and "output_path \<notin> nowrite fs"
  shows "copy_image fs input_path label = Inr (fs\<lparr>files := (files fs)(output_path \<mapsto> c)\<rparr>) \<and>
         (\<forall>w env. disk w = fs \<and> index w < length (paths w) \<and> paths w ! index w = input_path \<and>
                  \<not> truthy_dict (out_dict w)
            \<longrightarrow> vote env label w =
                  show_next_image env (w\<lparr>disk := fs\<lparr>files := (files fs)(output_path \<mapsto> c)\<rparr>\<rparr>) \<and>
                index (snd (vote env label w)) = Suc (index w) \<and>
                (Suc (index w) < n_paths w \<and> Suc (index w) < length (paths w) \<and>
                 load_image env (fs\<lparr>files := (files fs)(output_path \<mapsto> c)\<rparr>)
                   (paths w ! Suc (index w)) = None
                 \<longrightarrow> fst (vote env label w) = None \<and>
                     disk (snd (vote env label w)) = fs\<lparr>files := (files fs)(output_path \<mapsto> c)\<rparr>) \<and>
                (\<not> Suc (index w) < n_paths w \<and> \<not> truthy_str (out_file w)
                 \<longrightarrow> fst (vote env label w) = None \<and>
                     disk (snd (vote env label w)) = fs\<lparr>files := (files fs)(output_path \<mapsto> c)\<rparr> \<and>
                     quit (snd (vote env label w))))"
proof -
  let ?fs = "fs\<lparr>files := (files fs)(output_path \<mapsto> c)\<rparr>"
  have c: "copy_image fs input_path label = Inr ?fs"
    using assms
    by (auto simp: copy_image_def copyfile_def write_file_def open_w_def split: prod.splits)
  have v: "vote env label w = show_next_image env (w\<lparr>disk := ?fs\<rparr>)"
    if "disk w = fs" "index w < length (paths w)" "paths w ! index w = input_path"
      "\<not> truthy_dict (out_dict w)" for w env
    using that c vote_copy_ok [of w label ?fs env] by simp
  have i: "index (snd (show_next_image env (w\<lparr>disk := ?fs\<rparr>))) = Suc (index w)" for w env
    using show_next_image_frame [of env "w\<lparr>disk := ?fs\<rparr>"] by simp
  have d: "fst (show_next_image env (w\<lparr>disk := ?fs\<rparr>)) = None \<and>
           disk (snd (show_next_image env (w\<lparr>disk := ?fs\<rparr>))) = ?fs"
    if "Suc (index w) < n_paths w" "Suc (index w) < length (paths w)"
      "load_image env ?fs (paths w ! Suc (index w)) = None" for w env
    using that show_next_image_displays [of "w\<lparr>disk := ?fs\<rparr>" env] by simp
  have q: "fst (show_next_image env (w\<lparr>disk := ?fs\<rparr>)) = None \<and>
           disk (snd (show_next_image env (w\<lparr>disk := ?fs\<rparr>))) = ?fs \<and>
           quit (snd (show_next_image env (w\<lparr>disk := ?fs\<rparr>)))"
    if "\<not> Suc (index w) < n_paths w" "\<not> truthy_str (out_file w)" for w env
    using that show_next_image_quits [of "w\<lparr>disk := ?fs\<rparr>" env] by simp
  have m: "vote env label w = show_next_image env (w\<lparr>disk := ?fs\<rparr>) \<and>
           index (snd (vote env label w)) = Suc (index w) \<and>
           (Suc (index w) < n_paths w \<and> Suc (index w) < length (paths w) \<and>
            load_image env ?fs (paths w ! Suc (index w)) = None
            \<longrightarrow> fst (vote env label w) = None \<and> disk (snd (vote env label w)) = ?fs) \<and>
           (\<not> Suc (index w) < n_paths w \<and> \<not> truthy_str (out_file w)
            \<longrightarrow> fst (vote env label w) = None \<and> disk (snd (vote env label w)) = ?fs \<and>
                quit (snd (vote env label w)))"
    if h: "disk w = fs \<and> index w < length (paths w) \<and> paths w ! index w = input_path \<and>
           \<not> truthy_dict (out_dict w)" for w :: world and env
  proof -
    from h have e: "vote env label w = show_next_image env (w\<lparr>disk := ?fs\<rparr>)"
      using v [of w env] by blast
    show ?thesis unfolding e using i [of env w] d [of w env] q [of w env] by blast
  qed
  from c m show ?thesis by blast
qed

text \<open>
  Claim C3 as stated fails: with \<^verbatim>\<open>/data/cat/a.jpg\<close> present, the decision cat for
  \<^verbatim>\<open>/data/a.jpg\<close> succeeds and replaces it, a second identical copy succeeds again, and
  the vote returns with the index advanced.
\<close>

theorem copy_existing_destination_counterexample:
  "files ex_disk_taken ''/data/cat/a.jpg'' = Some ''old'' \<and>
   copy_image ex_disk_taken ''/data/a.jpg'' ''cat'' =
     Inr (ex_disk_taken\<lparr>files := (files ex_disk_taken)(''/data/cat/a.jpg'' \<mapsto> ''A'')\<rparr>) \<and>
   copy_image (ex_disk_taken\<lparr>files := (files ex_disk_taken)(''/data/cat/a.jpg'' \<mapsto> ''A'')\<rparr>)
       ''/data/a.jpg'' ''cat'' =
     Inr (ex_disk_taken\<lparr>files := (files ex_disk_taken)(''/data/cat/a.jpg'' \<mapsto> ''A'')\<rparr>) \<and>
   fst (vote ex_env ''cat'' ex_copy_taken) = None \<and>
   index (snd (vote ex_env ''cat'' ex_copy_taken)) = 1"
  by (simp add: vote_def show_next_image_def set_image_def load_image_def copy_image_def
      truthy_dict_def truthy_str_def Let_def ex_defs path_defs fs_defs)

theorem copy_image_overwrites_witness:
  "open_r ex_disk_taken ''/data/a.jpg'' = Inr ''A'' \<and>
   ''/data/cat/a.jpg'' = join (fst (split_path ''/data/a.jpg'')) [''cat'', snd (split_path ''/data/a.jpg'')] \<and>
   files ex_disk_taken ''/data/cat/a.jpg'' \<noteq> None \<and>
   ''/data/cat/a.jpg'' \<noteq> ''/data/a.jpg'' \<and>
   ''/data/cat/a.jpg'' \<notin> dirs ex_disk_taken \<and>
   ''/data/cat/a.jpg'' \<notin> nowrite ex_disk_taken \<and>
   copy_image ex_disk_taken ''/data/a.jpg'' ''cat'' =
     Inr (ex_disk_taken\<lparr>files := (files ex_disk_taken)(''/data/cat/a.jpg'' \<mapsto> ''A'')\<rparr>) \<and>
   fst (vote ex_env ''cat'' ex_copy_taken) = None \<and>
   index (snd (vote ex_env ''cat'' ex_copy_taken)) = Suc (index ex_copy_taken)"
proof -
  let ?fs = "ex_disk_taken\<lparr>files := (files ex_disk_taken)(''/data/cat/a.jpg'' \<mapsto> ''A'')\<rparr>"
  have h1: "open_r ex_disk_taken ''/data/a.jpg'' = Inr ''A''" by (simp add: fs_defs ex_defs)
  have h2: "''/data/cat/a.jpg'' = join (fst (split_path ''/data/a.jpg'')) [''cat'', snd (split_path ''/data/a.jpg'')]"
    by (simp add: path_defs)
  have h3: "files ex_disk_taken ''/data/cat/a.jpg'' \<noteq> None" by (simp add: ex_defs)
  have h4: "''/data/cat/a.jpg'' \<noteq> ''/data/a.jpg''" by simp
  have h5: "''/data/cat/a.jpg'' \<notin> dirs ex_disk_taken" by (simp add: ex_defs)
  have h6: "''/data/cat/a.jpg'' \<notin> nowrite ex_disk_taken" by (simp add: ex_defs)
  note t = copy_image_overwrites [OF h1 h2 h3 h4 h5 h6]
  have w: "disk ex_copy_taken = ex_disk_taken \<and> index ex_copy_taken < length (paths ex_copy_taken) \<and>
           paths ex_copy_taken ! index ex_copy_taken = ''/data/a.jpg'' \<and>
           \<not> truthy_dict (out_dict ex_copy_taken)"
    by (simp add: truthy_dict_def ex_defs)
  have n: "Suc (index ex_copy_taken) < n_paths ex_copy_taken \<and>
           Suc (index ex_copy_taken) < length (paths ex_copy_taken) \<and>
           load_image ex_env ?fs (paths ex_copy_taken ! Suc (index ex_copy_taken)) = None"
    by (simp add: load_image_def fs_defs ex_defs)
  from t have c: "copy_image ex_disk_taken ''/data/a.jpg'' ''cat'' = Inr ?fs" by blast
  from t w n have "fst (vote ex_env ''cat'' ex_copy_taken) = None" by blast
  moreover from t w have "index (snd (vote ex_env ''cat'' ex_copy_taken)) = Suc (index ex_copy_taken)"
    by blast
  ultimately show ?thesis using h1 h2 h3 h4 h5 h6 c by blast
qed

text \<open>
  Claim C9, as amended. In text mode, where the dict has the configured labels as its
  keys, a decision for a label that is not configured raises KeyError and leaves the state
  as it was. In copy mode the label is not compared with the configured labels: when the
  image is a readable file and neither the destination nor its folder exists, the
  decision raises and leaves the state as it was, with NotADirectoryError when a regular
  file stands on the way to the destination and with FileNotFoundError otherwise.
\<close>

theorem vote_unconfigured_label:
  assumes "index w < length (paths w)"
  shows "(truthy_dict (out_dict w) \<and> out_dict w = Some d \<and> fst ` set d = set (labels w) \<and>
            label \<notin> set (labels w)
          \<longrightarrow> vote env label w = (Some KeyError, w)) \<and>
         (\<not> truthy_dict (out_dict w) \<and> open_r (disk w) (paths w ! index w) = Inr c \<and>
            output_path = join (fst (split_path (paths w ! index w)))
                            [label, snd (split_path (paths w ! index w))] \<and>
            \<not> exists_path (disk w) output_path \<and>
            \<not> dir_exists (disk w) (fst (split_path output_path))
          \<longrightarrow> vote env label w =
                (Some (if file_above (disk w) output_path then NotADirectoryError
                       else FileNotFoundError), w))"
proof -
  have a: "add_to_dict d p label = Inl KeyError" if "label \<notin> fst ` set d" for p
  proof -
    from that have "map_of d label = None" by (simp only: map_of_eq_None_iff not_False_eq_True)
    then show ?thesis by (simp add: add_to_dict_def)
  qed
  have b: "copy_image fs p label =
             Inl (if file_above fs output_path then NotADirectoryError else FileNotFoundError)"
    if "open_r fs p = Inr c" "output_path = join (fst (split_path p)) [label, snd (split_path p)]"
      "\<not> exists_path fs output_path" "\<not> dir_exists fs (fst (split_path output_path))" for fs p
  proof -
    from that(1,3) have ne: "p \<noteq> output_path"
      by (auto simp: open_r_def exists_path_def split: if_splits option.splits)
    from that(3,4) have "open_w fs output_path =
        Some (if file_above fs output_path then NotADirectoryError else FileNotFoundError)"
      by (simp add: open_w_def exists_path_def)
    then have "write_file fs output_path c =
        Inl (if file_above fs output_path then NotADirectoryError else FileNotFoundError)"
      by (simp add: write_file_def)
    with that(1) ne have "copyfile fs p output_path =
        Inl (if file_above fs output_path then NotADirectoryError else FileNotFoundError)"
      by (simp add: copyfile_def)
    moreover have "copy_image fs p label = copyfile fs p output_path"
      using that(2) by (simp add: copy_image_def case_prod_beta)
    ultimately show ?thesis by simp
  qed
  show ?thesis using assms a b by (auto simp: vote_def Let_def)
qed

text \<open>
  Claim C9 as stated fails in copy mode: the folder \<^verbatim>\<open>/data/old\<close> exists, old is not a
  configured label, and the decision old copies the image there and advances.
\<close>

theorem vote_unconfigured_label_counterexample:
  "''old'' \<notin> set (labels ex_copy) \<and> \<not> truthy_dict (out_dict ex_copy) \<and>
   fst (vote ex_env ''old'' ex_copy) = None \<and>
   index (snd (vote ex_env ''old'' ex_copy)) = 1 \<and>
   files (disk (snd (vote ex_env ''old'' ex_copy))) ''/data/old/a.jpg'' = Some ''A''"
  by (simp add: vote_def show_next_image_def set_image_def load_image_def copy_image_def
      truthy_dict_def truthy_str_def Let_def ex_defs path_defs fs_defs)

theorem vote_unconfigured_label_witness:
  "index ex_txt < length (paths ex_txt) \<and> truthy_dict (out_dict ex_txt) \<and>
   out_dict ex_txt = Some [(''cat'', []), (''dog'', [])] \<and>
   fst ` set [(''cat'', []), (''dog'', [])] = set (labels ex_txt) \<and>
   ''bird'' \<notin> set (labels ex_txt) \<and>
   vote ex_env ''bird'' ex_txt = (Some KeyError, ex_txt) \<and>
   \<not> file_above (disk ex_copy) ''/data/bird/a.jpg'' \<and>
   vote ex_env ''bird'' ex_copy = (Some FileNotFoundError, ex_copy) \<and>
   file_above ex_disk_bird_file ''/data/bird/a.jpg'' \<and>
   vote ex_env ''bird'' (ex_copy\<lparr>disk := ex_disk_bird_file\<rparr>) =
     (Some NotADirectoryError, ex_copy\<lparr>disk := ex_disk_bird_file\<rparr>)"
proof -
  have i: "index ex_txt < length (paths ex_txt)" by (simp add: ex_defs)
  have h: "truthy_dict (out_dict ex_txt)" "out_dict ex_txt = Some [(''cat'', []), (''dog'', [])]"
    "fst ` set [(''cat'', []), (''dog'', [])] = set (labels ex_txt)"
    "''bird'' \<notin> set (labels ex_txt)"
    by (auto simp: truthy_dict_def ex_defs)
  from vote_unconfigured_label [OF i, where d = "[(''cat'', []), (''dog'', [])]"
      and label = "''bird''" and env = ex_env] h
  have k: "vote ex_env ''bird'' ex_txt = (Some KeyError, ex_txt)" by blast
  have i2: "index ex_copy < length (paths ex_copy)" by (simp add: ex_defs)
  have c2: "\<not> truthy_dict (out_dict ex_copy) \<and>
      open_r (disk ex_copy) (paths ex_copy ! index ex_copy) = Inr ''A'' \<and>
      ''/data/bird/a.jpg'' = join (fst (split_path (paths ex_copy ! index ex_copy)))
                            [''bird'', snd (split_path (paths ex_copy ! index ex_copy))] \<and>
      \<not> exists_path (disk ex_copy) ''/data/bird/a.jpg'' \<and>
      \<not> dir_exists (disk ex_copy) (fst (split_path ''/data/bird/a.jpg''))"
    by (simp add: truthy_dict_def path_defs fs_defs ex_defs)
  have f2: "\<not> file_above (disk ex_copy) ''/data/bird/a.jpg''"
    by (simp add: file_above_def sep_def ex_defs)
  from vote_unconfigured_label [OF i2, where label = "''bird''" and env = ex_env
      and c = "''A''" and output_path = "''/data/bird/a.jpg''"] c2
  have "vote ex_env ''bird'' ex_copy =
      (Some (if file_above (disk ex_copy) ''/data/bird/a.jpg'' then NotADirectoryError
             else FileNotFoundError), ex_copy)" by blast
  with f2 have n: "vote ex_env ''bird'' ex_copy = (Some FileNotFoundError, ex_copy)" by simp
  let ?w = "ex_copy\<lparr>disk := ex_disk_bird_file\<rparr>"
  have i3: "index ?w < length (paths ?w)" by (simp add: ex_defs)
  have c3: "\<not> truthy_dict (out_dict ?w) \<and>
      open_r (disk ?w) (paths ?w ! index ?w) = Inr ''A'' \<and>
      ''/data/bird/a.jpg'' = join (fst (split_path (paths ?w ! index ?w)))
                            [''bird'', snd (split_path (paths ?w ! index ?w))] \<and>
      \<not> exists_path (disk ?w) ''/data/bird/a.jpg'' \<and>
      \<not> dir_exists (disk ?w) (fst (split_path ''/data/bird/a.jpg''))"
    by (simp add: truthy_dict_def path_defs fs_defs ex_defs)
  have f3: "file_above ex_disk_bird_file ''/data/bird/a.jpg''"
    by (simp add: file_above_def sep_def ex_defs)
  have dw: "disk ?w = ex_disk_bird_file" by simp
  from vote_unconfigured_label [OF i3, where label = "''bird''" and env = ex_env
      and c = "''A''" and output_path = "''/data/bird/a.jpg''"] c3
  have "vote ex_env ''bird'' ?w =
      (Some (if file_above (disk ?w) ''/data/bird/a.jpg'' then NotADirectoryError
             else FileNotFoundError), ?w)" by blast
  with f3 dw have m: "vote ex_env ''bird'' ?w = (Some NotADirectoryError, ?w)" by simp
  from i h k f2 n f3 m show ?thesis by blast
qed

lemma count_files_sum:
  assumes "list_all2 (\<lambda>p k. \<exists>c. open_r fs p = Inr c \<and> length (py_lines c) = k) ps ks"
  shows "count_files fs ps tot = Inr (tot + sum_list ks)"
  using assms
proof (induction ps ks arbitrary: tot rule: list_all2_induct)
  case Nil
  show ?case by simp
next
  case (Cons p ps k ks)
  from Cons.hyps(1) obtain c where c: "open_r fs p = Inr c" "length (py_lines c) = k" by blast
  show ?case using c Cons.IH [of "tot + k"] by (simp add: add.assoc)
qed

lemma open_r_exists: "open_r fs p = Inr c \<Longrightarrow> exists_path fs p"
  by (auto simp: open_r_def exists_path_def split: if_splits option.splits)

text \<open>
  Claim C4, as amended. As the script runs it (the module-level \<^verbatim>\<open>labels\<close> is the list of
  labels of the session, which is not empty, and the folder name is not empty), when the
  manifest files of the labels are readable and hold k1, ..., kn lines,
  \<^verbatim>\<open>_restart_from_file\<close> returns their sum and the constructor takes it as its index. The
  session begins at that index when the sum is below the number of images and the image
  there can be displayed; when the sum is not below the number of images the constructor
  raises IndexError.
\<close>

theorem resume_sums_line_counts:
  assumes "glob_labels env = Some lbls"
    and "lbls \<noteq> []" and "ptf \<noteq> []"
    and "list_all2 (\<lambda>label k. \<exists>c. open_r fs (join ptf [label @ ''.txt'']) = Inr c \<and>
                                   length (py_lines c) = k) lbls ks"
  shows "restart_from_file env labs ptf fs = Inr (sum_list ks) \<and>
         start_index env lbls (Some ptf) fs = Inr (sum_list ks) \<and>
         (sum_list ks < length pths \<and> load_image env fs (pths ! sum_list ks) = None \<longrightarrow>
            (\<exists>w. init env lbls pths odict (Some ptf) fs = Inr w \<and> index w = sum_list ks)) \<and>
         (\<not> sum_list ks < length pths \<longrightarrow>
            init env lbls pths odict (Some ptf) fs = Inl IndexError)"
proof -
  have "list_all2 (\<lambda>p k. \<exists>c. open_r fs p = Inr c \<and> length (py_lines c) = k)
          (map (\<lambda>item. join ptf [item @ ''.txt'']) lbls) ks"
    using assms(4) by (simp add: list_all2_map1)
  from count_files_sum [OF this, of 0] assms(1)
  have r: "restart_from_file env labs ptf fs = Inr (sum_list ks)" for labs
    by (simp add: restart_from_file_def)
  obtain l0 rest where l: "lbls = l0 # rest" using assms(2) by (cases lbls) auto
  with assms(4) obtain c where "open_r fs (join ptf [l0 @ ''.txt'']) = Inr c"
    by (auto simp: list_all2_Cons1)
  then have "exists_path fs (join ptf [l0 @ ''.txt''])" by (rule open_r_exists)
  with l assms(3) r [of lbls] have s: "start_index env lbls (Some ptf) fs = Inr (sum_list ks)"
    by (simp add: start_index_def truthy_str_def)
  from s have i1: "sum_list ks < length pths \<and> load_image env fs (pths ! sum_list ks) = None \<longrightarrow>
      (\<exists>w. init env lbls pths odict (Some ptf) fs = Inr w \<and> index w = sum_list ks)"
    by (simp add: init_def)
  from s have i2: "\<not> sum_list ks < length pths \<longrightarrow>
      init env lbls pths odict (Some ptf) fs = Inl IndexError"
    by (simp add: init_def)
  from r s i1 i2 show ?thesis by blast
qed

lemma ex_resume_files:
  "list_all2 (\<lambda>label k. \<exists>c. open_r ex_disk_resume (join ''/data'' [label @ ''.txt'']) = Inr c \<and>
                                   length (py_lines c) = k) [''cat'', ''dog''] [1, 1 :: nat]"
  by (simp add: py_lines_def path_defs fs_defs ex_defs)

theorem resume_sums_line_counts_witness:
  "glob_labels ex_env = Some [''cat'', ''dog''] \<and>
   list_all2 (\<lambda>label k. \<exists>c. open_r ex_disk_resume (join ''/data'' [label @ ''.txt'']) = Inr c \<and>
                                   length (py_lines c) = k) [''cat'', ''dog''] [1, 1 :: nat] \<and>
   restart_from_file ex_env [''cat'', ''dog''] ''/data'' ex_disk_resume = Inr 2 \<and>
   load_image ex_env ex_disk_resume (ex_paths ! 2) = None \<and>
   (\<exists>w. init ex_env [''cat'', ''dog''] ex_paths (Some (main_outdict [''cat'', ''dog'']))
           (Some ''/data'') ex_disk_resume = Inr w \<and> index w = 2)"
proof -
  have g: "glob_labels ex_env = Some [''cat'', ''dog'']" by (simp add: ex_defs)
  have n: "[''cat'', ''dog''] \<noteq> []" "''/data'' \<noteq> []" by simp_all
  have li: "load_image ex_env ex_disk_resume (ex_paths ! 2) = None"
    by (simp add: load_image_def fs_defs ex_defs)
  have e: "sum_list [1, 1 :: nat] = 2" by simp
  have lt: "(2::nat) < length ex_paths" by (simp add: ex_defs)
  note t = resume_sums_line_counts [OF g n ex_resume_files, of "[''cat'', ''dog'']" ex_paths
      "Some (main_outdict [''cat'', ''dog''])"]
  from t [unfolded e] li lt
  have "restart_from_file ex_env [''cat'', ''dog''] ''/data'' ex_disk_resume = Inr 2 \<and>
        (\<exists>w. init ex_env [''cat'', ''dog''] ex_paths (Some (main_outdict [''cat'', ''dog'']))
           (Some ''/data'') ex_disk_resume = Inr w \<and> index w = 2)"
    by blast
  with g ex_resume_files li show ?thesis by blast
qed

text \<open>
  Claim C4 as stated fails when every image has been decided: with one line in each of the
  two manifests and two images, the count is 2 and no session begins.
\<close>

theorem resume_at_end_counterexample:
  "restart_from_file ex_env [''cat'', ''dog''] ''/data'' ex_disk_resume = Inr 2 \<and>
   init ex_env [''cat'', ''dog''] [''/data/a.jpg'', ''/data/b.jpg'']
     (Some (main_outdict [''cat'', ''dog''])) (Some ''/data'') ex_disk_resume = Inl IndexError"
  by (simp add: init_def start_index_def restart_from_file_def truthy_str_def py_lines_def
      path_defs fs_defs ex_defs)

text \<open>
  Claim C5, as amended. When the manifest file of the first label is missing from the
  folder, no manifest is read: the index stays 0, whatever the files of the other labels
  hold, and the constructor goes on to display the first image.
\<close>

theorem resume_skipped_without_first_manifest:
  assumes "lbls = l0 # rest"
    and "\<not> exists_path fs (join ptf [l0 @ ''.txt''])"
  shows "start_index env lbls (Some ptf) fs = Inr 0 \<and>
         (pths \<noteq> [] \<and> load_image env fs (pths ! 0) = None \<longrightarrow>
            (\<exists>w. init env lbls pths odict (Some ptf) fs = Inr w \<and> index w = 0))"
proof -
  from assms have s: "start_index env lbls (Some ptf) fs = Inr 0"
    by (simp add: start_index_def truthy_str_def)
  then show ?thesis by (simp add: init_def)
qed

theorem resume_skipped_without_first_manifest_witness:
  "\<not> exists_path ex_disk_dog_only (join ''/data'' [''cat'' @ ''.txt'']) \<and>
   open_r ex_disk_dog_only ''/data/dog.txt'' = Inr ''a.jpg\<newline>b.jpg\<newline>'' \<and>
   start_index ex_env [''cat'', ''dog''] (Some ''/data'') ex_disk_dog_only = Inr 0"
proof -
  have h: "\<not> exists_path ex_disk_dog_only (join ''/data'' [''cat'' @ ''.txt''])"
    by (simp add: path_defs fs_defs ex_defs)
  have o: "open_r ex_disk_dog_only ''/data/dog.txt'' = Inr ''a.jpg\<newline>b.jpg\<newline>''"
    by (simp add: fs_defs ex_defs)
  from resume_skipped_without_first_manifest [OF refl h, of ex_env "[''dog'']"] h o
  show ?thesis by simp
qed

text \<open>
  Claim C5 as stated fails: with the manifest of cat present and that of dog missing, the
  constructor raises FileNotFoundError instead of counting the one line of cat.
\<close>

theorem missing_manifest_counterexample:
  "exists_path ex_disk_cat_only ''/data/cat.txt'' \<and>
   \<not> exists_path ex_disk_cat_only ''/data/dog.txt'' \<and>
   start_index ex_env [''cat'', ''dog''] (Some ''/data'') ex_disk_cat_only = Inl FileNotFoundError \<and>
   init ex_env [''cat'', ''dog''] ex_paths (Some (main_outdict [''cat'', ''dog'']))
     (Some ''/data'') ex_disk_cat_only = Inl FileNotFoundError"
  by (simp add: init_def start_index_def restart_from_file_def truthy_str_def py_lines_def
      path_defs fs_defs ex_defs)

lemma open_w_after_write:
  "open_w fs q = None \<Longrightarrow> open_w (fs\<lparr>files := (files fs)(p \<mapsto> c)\<rparr>) q = None"
  by (auto simp: open_w_def dir_exists_def split: if_splits)

lemma write_file_ok:
  "open_w fs p = None \<Longrightarrow> write_file fs p c = Inr (fs\<lparr>files := (files fs)(p \<mapsto> c)\<rparr>)"
  by (simp add: write_file_def)

lemma save_loop_ok:
  assumes "\<forall>kk \<in> set ks. open_w fs (join ptf [kk @ ''.txt'']) = None"
    and "\<forall>kk \<in> set ks. map_of d kk \<noteq> None"
  shows "fst (save_loop d (Some ptf) ks fs) = None \<and>
         dirs (snd (save_loop d (Some ptf) ks fs)) = dirs fs \<and>
         noread (snd (save_loop d (Some ptf) ks fs)) = noread fs \<and>
         nowrite (snd (save_loop d (Some ptf) ks fs)) = nowrite fs \<and>
         (\<forall>p. p \<notin> (\<lambda>kk. join ptf [kk @ ''.txt'']) ` set ks \<longrightarrow>
              files (snd (save_loop d (Some ptf) ks fs)) p = files fs p)"
  using assms
proof (induction ks arbitrary: fs)
  case Nil
  show ?case by simp
next
  case (Cons kk ks)
  let ?p = "join ptf [kk @ ''.txt'']"
  from Cons.prems(2) obtain ls where ls: "map_of d kk = Some ls" by auto
  let ?fs = "fs\<lparr>files := (files fs)(?p \<mapsto> manifest_text ls)\<rparr>"
  have w: "write_file fs ?p (manifest_text ls) = Inr ?fs"
    using Cons.prems(1) by (simp add: write_file_ok)
  have eq: "save_loop d (Some ptf) (kk # ks) fs = save_loop d (Some ptf) ks ?fs"
    using ls w by simp
  have "\<forall>k \<in> set ks. open_w ?fs (join ptf [k @ ''.txt'']) = None"
    using Cons.prems(1) by (simp add: open_w_after_write)
  from Cons.IH [OF this] Cons.prems(2) eq show ?case by auto
qed

lemma save_loop_content:
  assumes "\<forall>kk \<in> set ks. open_w fs (join ptf [kk @ ''.txt'']) = None"
    and "\<forall>kk \<in> set ks. map_of d kk \<noteq> None"
    and "distinct (map (\<lambda>kk. join ptf [kk @ ''.txt'']) ks)"
    and "kk \<in> set ks" and "map_of d kk = Some ls"
  shows "files (snd (save_loop d (Some ptf) ks fs)) (join ptf [kk @ ''.txt'']) = Some (manifest_text ls)"
  using assms
proof (induction ks arbitrary: fs)
  case Nil
  then show ?case by simp
next
  case (Cons k ks)
  let ?p = "join ptf [k @ ''.txt'']"
  from Cons.prems(2) obtain ls' where ls': "map_of d k = Some ls'" by auto
  let ?fs = "fs\<lparr>files := (files fs)(?p \<mapsto> manifest_text ls')\<rparr>"
  have w: "write_file fs ?p (manifest_text ls') = Inr ?fs"
    using Cons.prems(1) by (simp add: write_file_ok)
  have eq: "save_loop d (Some ptf) (k # ks) fs = save_loop d (Some ptf) ks ?fs"
    using ls' w by simp
  have ow: "\<forall>k' \<in> set ks. open_w ?fs (join ptf [k' @ ''.txt'']) = None"
    using Cons.prems(1) by (simp add: open_w_after_write)
  have mo: "\<forall>k' \<in> set ks. map_of d k' \<noteq> None" using Cons.prems(2) by simp
  show ?case
  proof (cases "kk \<in> set ks")
    case True
    from Cons.IH [OF ow mo _ True Cons.prems(5)] Cons.prems(3) eq show ?thesis by simp
  next
    case False
    with Cons.prems(4) have k: "kk = k" by simp
    with Cons.prems(3) have "?p \<notin> (\<lambda>kk. join ptf [kk @ ''.txt'']) ` set ks" by auto
    with save_loop_ok [OF ow mo]
    have "files (snd (save_loop d (Some ptf) ks ?fs)) ?p = files ?fs ?p" by blast
    with eq k ls' Cons.prems(5) show ?thesis by simp
  qed
qed

lemma add_to_dict_appends:
  assumes "add_to_dict d p l = Inr d'"
  shows "map fst d' = map fst d \<and>
         (\<exists>ps. map_of d l = Some ps \<and> map_of d' l = Some (ps @ [p])) \<and>
         (\<forall>l'. l' \<noteq> l \<longrightarrow> map_of d' l' = map_of d l')"
proof -
  from assms obtain ps where ps: "map_of d l = Some ps" and d': "d' = AList.update l (ps @ [p]) d"
    by (auto simp: add_to_dict_def split: option.splits)
  from ps have "l \<in> fst ` set d" by (metis map_of_eq_None_iff option.distinct(1))
  then have "map fst d' = map fst d" using d' by (simp add: update_keys)
  moreover have "map_of d' l = Some (ps @ [p])" using d' by (simp add: update_conv')
  moreover have "\<forall>l'. l' \<noteq> l \<longrightarrow> map_of d' l' = map_of d l'" using d' by (simp add: update_conv')
  ultimately show ?thesis using ps by blast
qed

lemma py_lines_from_line:
  assumes "CHR 0x0A \<notin> set s" and "CHR 0x0D \<notin> set s"
  shows "py_lines_from cur (s @ CHR 0x0A # rest) = (cur @ s @ [CHR 0x0A]) # py_lines_from [] rest"
  using assms
proof (induction s arbitrary: cur)
  case Nil
  show ?case by (cases rest) simp_all
next
  case (Cons c s)
  obtain e es where e: "s @ CHR 0x0A # rest = e # es" by (cases s) auto
  from Cons.prems have c: "c \<noteq> CHR 0x0A" "c \<noteq> CHR 0x0D" by auto
  have "py_lines_from cur ((c # s) @ CHR 0x0A # rest) = py_lines_from (cur @ [c]) (s @ CHR 0x0A # rest)"
    using c e by simp
  also have "\<dots> = ((cur @ [c]) @ s @ [CHR 0x0A]) # py_lines_from [] rest"
    using Cons.IH [of "cur @ [c]"] Cons.prems by simp
  finally show ?case by simp
qed

lemma py_lines_manifest_text:
  assumes "\<forall>p \<in> set ls. CHR 0x0A \<notin> set (basename p) \<and> CHR 0x0D \<notin> set (basename p)"
  shows "py_lines (manifest_text ls) = map (\<lambda>p. basename p @ [CHR 0x0A]) ls"
  using assms
proof (induction ls)
  case Nil
  show ?case by (simp add: py_lines_def manifest_text_def)
next
  case (Cons p ls)
  have "py_lines (manifest_text (p # ls)) = py_lines_from [] (basename p @ CHR 0x0A # manifest_text ls)"
    by (simp add: py_lines_def manifest_text_def)
  also have "\<dots> = ([] @ basename p @ [CHR 0x0A]) # py_lines_from [] (manifest_text ls)"
    using Cons.prems by (intro py_lines_from_line) simp_all
  finally show ?case using Cons by (simp add: py_lines_def)
qed


lemma save_loop_keeps_open_w:
  "open_w fs q = None \<Longrightarrow> open_w (snd (save_loop d dir ks fs)) q = None"
proof (induction ks arbitrary: fs)
  case Nil
  then show ?case by simp
next
  case (Cons kk ks)
  show ?case
  proof (cases dir)
    case None
    with Cons.prems show ?thesis by simp
  next
    case (Some ptf)
    show ?thesis
    proof (cases "map_of d kk")
      case None
      with Some Cons.prems show ?thesis by simp
    next
      case (Some ls)
      show ?thesis
      proof (cases "open_w fs (join ptf [kk @ ''.txt''])")
        case None
        have "open_w (fs\<lparr>files := (files fs)(join ptf [kk @ ''.txt''] \<mapsto> manifest_text ls)\<rparr>) q = None"
          using Cons.prems by (rule open_w_after_write)
        from Cons.IH [OF this] None Some \<open>dir = Some ptf\<close> show ?thesis
          by (simp add: write_file_def)
      next
        case (Some e)
        with \<open>map_of d kk = Some ls\<close> \<open>dir = Some ptf\<close> Cons.prems show ?thesis
          by (simp add: write_file_def)
      qed
    qed
  qed
qed

lemma txt_not_sep:
  "k = [] \<or> hd k \<noteq> sep \<Longrightarrow> \<not> (k @ ''.txt'' \<noteq> [] \<and> hd (k @ ''.txt'') = sep)"
  by (cases k) (simp_all add: sep_def)

lemma join_txt_inj:
  assumes "a = [] \<or> hd a \<noteq> sep" and "b = [] \<or> hd b \<noteq> sep"
    and "join ptf [a @ ''.txt''] = join ptf [b @ ''.txt'']"
  shows "a = b"
proof -
  have ja: "join ptf [a @ ''.txt''] =
      (if ptf = [] \<or> last ptf = sep then ptf @ a @ ''.txt'' else ptf @ [sep] @ a @ ''.txt'')"
    using txt_not_sep [OF assms(1)] by (simp add: join_def join_step_def)
  have jb: "join ptf [b @ ''.txt''] =
      (if ptf = [] \<or> last ptf = sep then ptf @ b @ ''.txt'' else ptf @ [sep] @ b @ ''.txt'')"
    using txt_not_sep [OF assms(2)] by (simp add: join_def join_step_def)
  from assms(3) ja jb show ?thesis by (simp split: if_splits)
qed

lemma manifest_paths_distinct:
  assumes "distinct ks" and "\<forall>k \<in> set ks. k = [] \<or> hd k \<noteq> sep"
  shows "distinct (map (\<lambda>kk. join ptf [kk @ ''.txt'']) ks)"
proof -
  have "inj_on (\<lambda>kk. join ptf [kk @ ''.txt'']) (set ks)"
  proof (rule inj_onI)
    fix a b
    assume "a \<in> set ks" and "b \<in> set ks"
      and e: "join ptf [a @ ''.txt''] = join ptf [b @ ''.txt'']"
    with assms(2) have "a = [] \<or> hd a \<noteq> sep" and "b = [] \<or> hd b \<noteq> sep" by blast+
    then show "a = b" using e by (rule join_txt_inj)
  qed
  with assms(1) show ?thesis by (simp add: distinct_map)
qed

text \<open>
  Claim C6. In text mode, when every manifest can be written and the labels give different
  file names (as labels that do not start with a separator do), \<^verbatim>\<open>save\<close> returns without
  raising and leaves, for every label, the file named after the label with one line per
  path recorded for it, the base name of the path, in the order of the list; what the
  file held before is replaced, and the other files are untouched. Saving again changes
  nothing. A recorded path is appended at the end of the list of its label, and the
  lines of a manifest read back are these base names when none holds a line break.
\<close>

theorem save_writes_manifests:
  assumes "out_dict w = Some d" and "out_file w = Some ptf"
    and "distinct (map (\<lambda>kk. join ptf [kk @ ''.txt'']) (map fst d))"
    and "\<forall>kk \<in> fst ` set d. open_w (disk w) (join ptf [kk @ ''.txt'']) = None"
  shows "fst (save w) = None \<and>
         (\<forall>(kk, ls) \<in> set d.
            files (disk (snd (save w))) (join ptf [kk @ ''.txt'']) = Some (manifest_text ls)) \<and>
         (\<forall>p. p \<notin> (\<lambda>kk. join ptf [kk @ ''.txt'']) ` fst ` set d \<longrightarrow>
            files (disk (snd (save w))) p = files (disk w) p) \<and>
         save (snd (save w)) = (None, snd (save w)) \<and>
         (\<forall>ls. (\<forall>p \<in> set ls. CHR 0x0A \<notin> set (basename p) \<and> CHR 0x0D \<notin> set (basename p)) \<longrightarrow>
            py_lines (manifest_text ls) = map (\<lambda>p. basename p @ [CHR 0x0A]) ls) \<and>
         (\<forall>p l d'. add_to_dict d p l = Inr d' \<longrightarrow>
            map fst d' = map fst d \<and>
            (\<exists>ps. map_of d l = Some ps \<and> map_of d' l = Some (ps @ [p])) \<and>
            (\<forall>l'. l' \<noteq> l \<longrightarrow> map_of d' l' = map_of d l'))"
proof -
  let ?path = "\<lambda>kk. join ptf [kk @ ''.txt'']"
  let ?ks = "map fst d"
  let ?fs = "disk w"
  let ?fs' = "snd (save_loop d (Some ptf) ?ks ?fs)"
  let ?fs'' = "snd (save_loop d (Some ptf) ?ks ?fs')"
  have dk: "distinct ?ks" using assms(3) by (metis distinct_map)
  have dp: "distinct (map ?path ?ks)" using assms(3) by simp
  have look: "map_of d kk = Some ls" if "(kk, ls) \<in> set d" for kk ls
    using dk that by (rule map_of_is_SomeI)
  have ow: "\<forall>kk \<in> set ?ks. open_w ?fs (?path kk) = None" using assms(4) by simp
  have mo: "\<forall>kk \<in> set ?ks. map_of d kk \<noteq> None" using look by fastforce
  have ow': "\<forall>kk \<in> set ?ks. open_w ?fs' (?path kk) = None"
    using ow save_loop_keeps_open_w by blast
  note ok = save_loop_ok [OF ow mo]
  note ok' = save_loop_ok [OF ow' mo]
  have sv: "save w = (fst (save_loop d (Some ptf) ?ks ?fs), w\<lparr>disk := ?fs'\<rparr>)"
    using assms(1,2) by (simp add: save_def split: prod.splits)
  have c1: "fst (save w) = None" using sv ok by simp
  have dw: "disk (snd (save w)) = ?fs'" using sv by simp
  have cont: "files ?fs' (?path kk) = Some (manifest_text ls)" if "(kk, ls) \<in> set d" for kk ls
  proof -
    from that have "kk \<in> set ?ks" by force
    from save_loop_content [OF ow mo dp this look [OF that]] show ?thesis .
  qed
  have cont': "files ?fs'' (?path kk) = Some (manifest_text ls)" if "(kk, ls) \<in> set d" for kk ls
  proof -
    from that have "kk \<in> set ?ks" by force
    from save_loop_content [OF ow' mo dp this look [OF that]] show ?thesis .
  qed
  have c2: "\<forall>(kk, ls) \<in> set d. files (disk (snd (save w))) (?path kk) = Some (manifest_text ls)"
    using cont dw by auto
  have c3: "\<forall>p. p \<notin> ?path ` fst ` set d \<longrightarrow> files (disk (snd (save w))) p = files ?fs p"
    using ok dw by simp
  have "files ?fs'' p = files ?fs' p" for p
  proof (cases "p \<in> ?path ` set ?ks")
    case True
    then obtain kk ls where "(kk, ls) \<in> set d" "p = ?path kk" by auto
    then show ?thesis using cont cont' by simp
  next
    case False
    then show ?thesis using ok' by blast
  qed
  then have "files ?fs'' = files ?fs'" by (rule ext)
  then have same: "?fs'' = ?fs'" using ok' by (intro filesys.equality) simp_all
  have "save (w\<lparr>disk := ?fs'\<rparr>) =
          (fst (save_loop d (Some ptf) ?ks ?fs'), w\<lparr>disk := ?fs''\<rparr>)"
    using assms(1,2) by (simp add: save_def split: prod.splits)
  then have c4: "save (snd (save w)) = (None, snd (save w))" using sv ok' same by simp
  have c5: "\<forall>ls. (\<forall>p \<in> set ls. CHR 0x0A \<notin> set (basename p) \<and> CHR 0x0D \<notin> set (basename p)) \<longrightarrow>
            py_lines (manifest_text ls) = map (\<lambda>p. basename p @ [CHR 0x0A]) ls"
    using py_lines_manifest_text by blast
  have c6: "\<forall>p l d'. add_to_dict d p l = Inr d' \<longrightarrow>
            map fst d' = map fst d \<and>
            (\<exists>ps. map_of d l = Some ps \<and> map_of d' l = Some (ps @ [p])) \<and>
            (\<forall>l'. l' \<noteq> l \<longrightarrow> map_of d' l' = map_of d l')"
    using add_to_dict_appends by blast
  from c1 c2 c3 c4 c5 c6 show ?thesis by blast
qed

theorem save_writes_manifests_witness:
  "out_dict ex_txt_two = Some [(''cat'', [''/data/a.jpg'']), (''dog'', [''/data/b.jpg''])] \<and>
   out_file ex_txt_two = Some ''/data'' \<and>
   distinct (map (\<lambda>kk. join ''/data'' [kk @ ''.txt''])
     (map fst [(''cat'', [''/data/a.jpg'']), (''dog'', [''/data/b.jpg''])])) \<and>
   open_w (disk ex_txt_two) ''/data/cat.txt'' = None \<and>
   open_w (disk ex_txt_two) ''/data/dog.txt'' = None \<and>
   fst (save ex_txt_two) = None \<and>
   files (disk (snd (save ex_txt_two))) ''/data/cat.txt'' = Some ''a.jpg\<newline>'' \<and>
   files (disk (snd (save ex_txt_two))) ''/data/dog.txt'' = Some ''b.jpg\<newline>'' \<and>
   save (snd (save ex_txt_two)) = (None, snd (save ex_txt_two))"
proof -
  have h1: "out_dict ex_txt_two = Some [(''cat'', [''/data/a.jpg'']), (''dog'', [''/data/b.jpg''])]"
    by (simp add: ex_defs)
  have h2: "out_file ex_txt_two = Some ''/data''" by (simp add: ex_defs)
  have h3: "distinct (map (\<lambda>kk. join ''/data'' [kk @ ''.txt''])
     (map fst [(''cat'', [''/data/a.jpg'']), (''dog'', [''/data/b.jpg''])]))"
    by (simp add: path_defs)
  have h4: "\<forall>kk \<in> fst ` set [(''cat'', [''/data/a.jpg'']), (''dog'', [''/data/b.jpg''])].
      open_w (disk ex_txt_two) (join ''/data'' [kk @ ''.txt'']) = None"
    by (simp add: path_defs fs_defs ex_defs)
  note t = save_writes_manifests [OF h1 h2 h3 h4]
  have p: "join ''/data'' [''cat'' @ ''.txt''] = ''/data/cat.txt''"
    "join ''/data'' [''dog'' @ ''.txt''] = ''/data/dog.txt''"
    by (simp_all add: path_defs)
  have m: "manifest_text [''/data/a.jpg''] = ''a.jpg\<newline>''" "manifest_text [''/data/b.jpg''] = ''b.jpg\<newline>''"
    by (simp_all add: manifest_text_def path_defs)
  from t have "fst (save ex_txt_two) = None"
    and "files (disk (snd (save ex_txt_two))) (join ''/data'' [''cat'' @ ''.txt'']) = Some (manifest_text [''/data/a.jpg''])"
    and "files (disk (snd (save ex_txt_two))) (join ''/data'' [''dog'' @ ''.txt'']) = Some (manifest_text [''/data/b.jpg''])"
    and "save (snd (save ex_txt_two)) = (None, snd (save ex_txt_two))"
    by auto
  moreover have "open_w (disk ex_txt_two) ''/data/cat.txt'' = None"
    "open_w (disk ex_txt_two) ''/data/dog.txt'' = None"
    by (simp_all add: path_defs fs_defs ex_defs)
  ultimately show ?thesis using p m h1 h2 h3 by simp
qed

lemma of_char_digit: "k < 10 \<Longrightarrow> (of_char (digit_char k) :: nat) = 48 + k"
  by (simp add: digit_char_def)

lemma py_int_digit: "k < 10 \<Longrightarrow> py_int (Some (digit_char k)) = Inr (int k)"
proof -
  assume k: "k < 10"
  then have "(of_char (digit_char k) :: nat) = 48 + k" by (rule of_char_digit)
  with k show ?thesis by (simp add: py_int_def)
qed

lemma digit_char_inj:
  assumes "j < 10" and "k < 10" and "digit_char j = digit_char k"
  shows "j = k"
proof -
  have "(of_char (digit_char j) :: nat) = 48 + j" using assms(1) by (rule of_char_digit)
  moreover have "(of_char (digit_char k) :: nat) = 48 + k" using assms(2) by (rule of_char_digit)
  ultimately show ?thesis using assms(3) by (metis add_left_cancel)
qed

lemma tk_matches_single: "tk_matches [c] (before @ [d]) \<longleftrightarrow> d = c"
  by (simp add: tk_matches_def)

lemma py_index_pos: "1 \<le> k \<Longrightarrow> k \<le> length xs \<Longrightarrow> py_index xs (int k - 1) = Inr (xs ! (k - 1))"
  by (simp add: py_index_def nat_diff_distrib')


lemma key_press_bound_digit:
  assumes "bindings w = map (\<lambda>key. str_nat (key + 1)) [0..<length (labels w)]"
    and "1 \<le> k" and "k \<le> length (labels w)" and "k \<le> 9"
  shows "key_press env before (digit_char k) w = vote env (labels w ! (k - 1)) w"
proof -
  have k10: "k < 10" using assms(4) by simp
  have "k - 1 \<in> set [0..<length (labels w)]" using assms(2,3) by simp
  then have "str_nat ((k - 1) + 1) \<in> (\<lambda>key. str_nat (key + 1)) ` set [0..<length (labels w)]"
    by (rule imageI)
  then have "str_nat ((k - 1) + 1) \<in> set (bindings w)" by (simp only: assms(1) set_map)
  moreover have "(k - 1) + 1 = k" using assms(2) by simp
  ultimately have "[digit_char k] \<in> set (bindings w)" using str_nat_digit [OF k10] by simp
  moreover have "tk_matches [digit_char k] (before @ [digit_char k])" by (simp add: tk_matches_single)
  ultimately have m: "\<exists>pat \<in> set (bindings w). tk_matches pat (before @ [digit_char k])" by blast
  have "vote_key env (Some (digit_char k)) w = vote env (labels w ! (k - 1)) w"
    using py_int_digit [OF k10] py_index_pos [OF assms(2,3)] by (simp add: vote_key_def)
  with m show ?thesis by (simp add: key_press_def)
qed

lemma key_press_unbound:
  assumes "bindings w = map (\<lambda>key. str_nat (key + 1)) [0..<length (labels w)]"
    and "length (labels w) \<le> 9"
    and "\<forall>k. 1 \<le> k \<and> k \<le> length (labels w) \<longrightarrow> c \<noteq> digit_char k"
  shows "key_press env before c w = (None, w)"
proof -
  have "\<not> tk_matches pat (before @ [c])" if "pat \<in> set (bindings w)" for pat
  proof -
    from that obtain key where key: "key < length (labels w)" and pat: "pat = str_nat (key + 1)"
      unfolding assms(1) by auto
    from key assms(2) have "key + 1 < 10" by simp
    then have "pat = [digit_char (key + 1)]" using pat str_nat_digit [of "key + 1"] by simp
    moreover have "c \<noteq> digit_char (key + 1)" using assms(3) key by simp
    ultimately show ?thesis by (simp add: tk_matches_single)
  qed
  then show ?thesis by (auto simp: key_press_def)
qed

text \<open>
  Keys with at most nine labels. In every state of a session with N labels, pressing the
  digit key k, for 1 \<le> k \<le> N and k \<le> 9, is the decision for the k-th label. When
  N \<le> 9, a key press with any other character reaches no binding: nothing is raised and
  the state is as it was.
\<close>

lemma key_press_digit:
  assumes "init env lbls pths odict ofile fs = Inr w0"
  shows "(1 \<le> k \<and> k \<le> length lbls \<and> k \<le> 9 \<longrightarrow>
            key_press env before (digit_char k) (run env as w0) =
            vote env (lbls ! (k - 1)) (run env as w0)) \<and>
         (length lbls \<le> 9 \<and> (\<forall>j. 1 \<le> j \<and> j \<le> length lbls \<longrightarrow> c \<noteq> digit_char j) \<longrightarrow>
            key_press env before c (run env as w0) = (None, run env as w0))"
proof -
  let ?w = "run env as w0"
  from init_props [OF assms] run_config [of w0 env as]
  have l: "labels ?w = lbls"
    and b: "bindings ?w = map (\<lambda>key. str_nat (key + 1)) [0..<length (labels ?w)]"
    by (simp_all add: same_config_def)
  have a: "key_press env before (digit_char k) ?w = vote env (lbls ! (k - 1)) ?w"
    if "1 \<le> k" "k \<le> length lbls" "k \<le> 9"
    using key_press_bound_digit [OF b, of k env before] that l by simp
  have u: "key_press env before c ?w = (None, ?w)"
    if "length lbls \<le> 9" "\<forall>j. 1 \<le> j \<and> j \<le> length lbls \<longrightarrow> c \<noteq> digit_char j"
    using key_press_unbound [OF b, of c env before] that l by simp
  from a u show ?thesis by blast
qed

lemma key_press_two_labels:
  "key_press ex_env [] (CHR ''2'') ex_txt = vote ex_env ''dog'' ex_txt \<and>
   key_press ex_env [] (CHR ''3'') ex_txt = (None, ex_txt)"
proof -
  note t = key_press_digit [OF init_ex_txt, where as = "[]" and before = "[]"]
  have d2: "digit_char 2 = CHR ''2''" by code_simp
  have "key_press ex_env [] (digit_char 2) ex_txt = vote ex_env ([''cat'', ''dog''] ! (2 - 1)) ex_txt"
    using t [where k = 2] by simp
  then have a: "key_press ex_env [] (CHR ''2'') ex_txt = vote ex_env ''dog'' ex_txt"
    by (simp add: d2)
  have n: "CHR ''3'' \<noteq> digit_char j" if "1 \<le> j \<and> j \<le> length [''cat'', ''dog'']" for j
  proof -
    from that have "j = Suc 0 \<or> j = Suc (Suc 0)" by auto
    then show ?thesis using digit_char_1_2 by auto
  qed
  have b: "key_press ex_env [] (CHR ''3'') ex_txt = (None, ex_txt)"
    using t [where c = "CHR ''3''"] n by simp
  from a b show ?thesis by simp
qed

lemma str_nat_ten: "str_nat 10 = ''10''"
  by code_simp

lemma init_ex_eleven:
  "init ex_env ex_eleven_labels ex_paths (Some (main_outdict ex_eleven_labels)) (Some ''/data'')
     ex_disk = Inr ex_eleven"
proof -
  have l: "length ex_eleven_labels = 11" by (simp add: ex_eleven_labels_def)
  have s: "start_index ex_env ex_eleven_labels (Some ''/data'') ex_disk = Inr 0"
    by (simp add: start_index_def truthy_str_def path_defs fs_defs ex_defs)
  have i: "load_image ex_env ex_disk (ex_paths ! 0) = None"
    by (simp add: load_image_def fs_defs ex_defs)
  have p: "length ex_paths = 3" "ex_paths ! 0 = ''/data/a.jpg''" by (simp_all add: ex_paths_def)
  show ?thesis
    unfolding init_def s using i p l by (simp add: ex_eleven_def)
qed

lemma eleven_key_one:
  assumes "bindings w = bindings ex_eleven" and "labels w = labels ex_eleven"
  shows "key_press ex_env before (CHR ''1'') w = vote ex_env ''a'' w"
proof -
  have l: "length (labels w) = 11" using assms(2) by (simp add: ex_eleven_def ex_eleven_labels_def)
  have be: "bindings ex_eleven = map (\<lambda>key. str_nat (key + 1)) [0..<11]"
    by (simp only: ex_eleven_def world.simps)
  have b: "bindings w = map (\<lambda>key. str_nat (key + 1)) [0..<length (labels w)]"
    by (simp only: assms(1) be l)
  have d: "digit_char 1 = CHR ''1''" using digit_char_1_2 by simp
  have a: "labels w ! (1 - 1) = ''a''" using assms(2) by (simp add: ex_eleven_def ex_eleven_labels_def)
  from key_press_bound_digit [OF b, of 1 ex_env before] l
  have "key_press ex_env before (digit_char 1) w = vote ex_env (labels w ! (1 - 1)) w" by simp
  then show ?thesis by (simp only: d a)
qed

lemma eleven_key_zero:
  assumes "bindings w = bindings ex_eleven" and "labels w = labels ex_eleven"
  shows "key_press ex_env ''1'' (CHR ''0'') w = vote ex_env ''k'' w"
proof -
  have "str_nat (9 + 1) \<in> (\<lambda>key. str_nat (key + 1)) ` set [0..<11]"
    by (rule imageI) simp
  then have "''10'' \<in> set (bindings w)" using str_nat_ten assms(1) by (simp add: ex_eleven_def)
  moreover have "tk_matches ''10'' (''1'' @ [CHR ''0''])" by (simp add: tk_matches_def)
  ultimately have "\<exists>pat \<in> set (bindings w). tk_matches pat (''1'' @ [CHR ''0''])" by blast
  then have "key_press ex_env ''1'' (CHR ''0'') w = vote_key ex_env (Some (CHR ''0'')) w"
    by (simp add: key_press_def)
  also have "\<dots> = vote ex_env ''k'' w"
    using assms(2) by (simp add: vote_key_def py_int_def py_index_def ex_eleven_def ex_eleven_labels_def)
  finally show ?thesis .
qed

lemma eleven_first_vote:
  "vote ex_env ''a'' ex_eleven =
     (None, ex_eleven\<lparr>index := 1, progress := (1, 3), image_path := Some ''/data/b.jpg'',
        out_dict := Some (AList.update ''a'' [''/data/a.jpg''] (main_outdict ex_eleven_labels))\<rparr>)"
  by (simp add: vote_def show_next_image_def set_image_def load_image_def
      truthy_dict_def truthy_str_def add_to_dict_def main_outdict_def Let_def
      ex_defs path_defs fs_defs)

text \<open>
  Claim C8 on the code, with eleven labels a to k in text mode. The constructor binds the
  strings 1 to 11, of which 10 and 11 are sequences of two key presses, and
  \<^verbatim>\<open>vote_key\<close> reads one character. Typing 11 records the first label twice, for the
  first and for the second image, and never the eleventh; the key 0 typed after the key 1
  is not ignored but records the last label k, read at position -1, so that typing 10
  records a and k and never the tenth label j.
\<close>

theorem key_eleven_labels_bug:
  "init ex_env ex_eleven_labels ex_paths (Some (main_outdict ex_eleven_labels)) (Some ''/data'')
     ex_disk = Inr ex_eleven \<and>
   length (labels ex_eleven) = 11 \<and> labels ex_eleven ! 9 = ''j'' \<and>
   labels ex_eleven ! 10 = ''k'' \<and>
   key_press ex_env [] (CHR ''1'') ex_eleven = vote ex_env ''a'' ex_eleven \<and>
   index (run ex_env [Key [] (CHR ''1''), Key ''1'' (CHR ''1'')] ex_eleven) = 2 \<and>
   out_dict (run ex_env [Key [] (CHR ''1''), Key ''1'' (CHR ''1'')] ex_eleven) =
     Some (AList.update ''a'' [''/data/a.jpg'', ''/data/b.jpg''] (main_outdict ex_eleven_labels)) \<and>
   index (run ex_env [Key [] (CHR ''1''), Key ''1'' (CHR ''0'')] ex_eleven) = 2 \<and>
   out_dict (run ex_env [Key [] (CHR ''1''), Key ''1'' (CHR ''0'')] ex_eleven) =
     Some (AList.update ''k'' [''/data/b.jpg'']
            (AList.update ''a'' [''/data/a.jpg''] (main_outdict ex_eleven_labels)))"
proof -
  let ?w1 = "ex_eleven\<lparr>index := 1, progress := (1, 3), image_path := Some ''/data/b.jpg'',
        out_dict := Some (AList.update ''a'' [''/data/a.jpg''] (main_outdict ex_eleven_labels))\<rparr>"
  have k1: "key_press ex_env [] (CHR ''1'') ex_eleven = vote ex_env ''a'' ex_eleven"
    by (rule eleven_key_one) simp_all
  have s1: "snd (step ex_env (Key [] (CHR ''1'')) ex_eleven) = ?w1"
    using k1 eleven_first_vote by (simp add: step_def)
  have c1: "bindings ?w1 = bindings ex_eleven" "labels ?w1 = labels ex_eleven" by simp_all
  have s2: "step ex_env (Key ''1'' (CHR ''1'')) ?w1 = vote ex_env ''a'' ?w1"
    using eleven_key_one [OF c1, of "''1''"] by (simp add: step_def)
  have s3: "step ex_env (Key ''1'' (CHR ''0'')) ?w1 = vote ex_env ''k'' ?w1"
    using eleven_key_zero [OF c1] by (simp add: step_def)
  have v2: "index (snd (vote ex_env ''a'' ?w1)) = 2 \<and>
      out_dict (snd (vote ex_env ''a'' ?w1)) =
        Some (AList.update ''a'' [''/data/a.jpg'', ''/data/b.jpg''] (main_outdict ex_eleven_labels))"
    by (simp add: vote_def show_next_image_def set_image_def load_image_def
        truthy_dict_def truthy_str_def add_to_dict_def main_outdict_def Let_def
        ex_defs path_defs fs_defs)
  have v3: "index (snd (vote ex_env ''k'' ?w1)) = 2 \<and>
      out_dict (snd (vote ex_env ''k'' ?w1)) =
        Some (AList.update ''k'' [''/data/b.jpg'']
               (AList.update ''a'' [''/data/a.jpg''] (main_outdict ex_eleven_labels)))"
    by (simp add: vote_def show_next_image_def set_image_def load_image_def
        truthy_dict_def truthy_str_def add_to_dict_def main_outdict_def Let_def
        ex_defs path_defs fs_defs)
  have r1: "run ex_env [Key [] (CHR ''1''), Key ''1'' (CHR ''1'')] ex_eleven = snd (vote ex_env ''a'' ?w1)"
    using s1 s2 by simp
  have r2: "run ex_env [Key [] (CHR ''1''), Key ''1'' (CHR ''0'')] ex_eleven = snd (vote ex_env ''k'' ?w1)"
    using s1 s3 by simp
  have l: "length (labels ex_eleven) = 11" "labels ex_eleven ! 9 = ''j''"
    "labels ex_eleven ! 10 = ''k''"
    by (simp_all add: ex_defs)
  from init_ex_eleven l k1 r1 r2 v2 v3 show ?thesis by simp
qed

end
